theory Spec2Isabelle
  imports Main "HOL-Library.Multiset" "HOL-Library.AList" "HOL-Library.Char_ord"
    "HOL-Library.List_Lexorder"
begin

section \<open>Thread payloads\<close>

text \<open>
  A \<open>ConversationEntry\<close> of \<open>types/conversation.ts\<close>, with the fields the harvesting
  engine reads: the entry key \<open>uuid\<close> and the two timestamps. The remaining fields of an
  entry are carried along untouched by every operation below; \<open>body\<close> stands for them.
  A timestamp that is missing, \<open>null\<close> or \<open>undefined\<close> in the JSON is \<open>None\<close>.
\<close>

record entry =
  uuid :: string
  updated_datetime :: "string option"
  entry_updated_datetime :: "string option"
  body :: string

text \<open>\<open>ConversationResponse\<close>: one (partial) payload of the thread endpoint.\<close>

record ConversationResponse =
  status :: string
  entries :: "entry list"
  has_next_page :: bool
  next_cursor :: "string option"
  domUrls :: "string list option"

text \<open>JavaScript truthiness of a \<open>string | null\<close> value: \<open>null\<close> and \<open>""\<close> are falsy.\<close>

definition truthy :: "string option \<Rightarrow> bool" where
  "truthy c = (case c of None \<Rightarrow> False | Some s \<Rightarrow> s \<noteq> [])"

section \<open>Response harvester (\<open>ConversationSaver.initialize\<close>)\<close>

text \<open>
  The loop \<open>for (const newEntry of data.entries)\<close>: the state is the buffer's entry list,
  the set \<open>existingUuids\<close> and the counter \<open>addedCount\<close>.
\<close>

fun mergeEntries :: "entry list \<Rightarrow> entry list \<times> string set \<times> nat \<Rightarrow> entry list \<times> string set \<times> nat" where
  "mergeEntries [] st = st"
| "mergeEntries (newEntry # rest) (existingEntries, existingUuids, addedCount) =
     (if uuid newEntry \<notin> existingUuids
      then mergeEntries rest
             (existingEntries @ [newEntry], insert (uuid newEntry) existingUuids, addedCount + 1)
      else mergeEntries rest (existingEntries, existingUuids, addedCount))"

text \<open>
  The body of the handler once a payload \<open>data\<close> with an entry list has been read for
  \<open>threadId\<close>: the first payload becomes the buffer; a later one is merged into it, and its
  pagination fields are copied only when \<open>hasCursor\<close> holds.
\<close>

definition harvest :: "(string \<rightharpoonup> ConversationResponse) \<Rightarrow> string \<Rightarrow> ConversationResponse
    \<Rightarrow> (string \<rightharpoonup> ConversationResponse)" where
  "harvest capturedResponses threadId data =
     (let hasCursor = (has_next_page data \<or> truthy (next_cursor data)) in
      case capturedResponses threadId of
        None \<Rightarrow> capturedResponses(threadId \<mapsto> data)
      | Some existing \<Rightarrow>
          (let (merged, _, _) =
                 mergeEntries (entries data)
                   (entries existing, set (map uuid (entries existing)), 0);
               existing1 = existing\<lparr>entries := merged\<rparr>;
               existing2 = (if hasCursor
                            then existing1\<lparr>has_next_page := has_next_page data,
                                           next_cursor := next_cursor data\<rparr>
                            else existing1)
           in capturedResponses(threadId \<mapsto> existing2)))"


text \<open>
  The filter in front of it. \<open>splitOnce sep s\<close> cuts \<open>s\<close> at the first occurrence of
  \<open>sep\<close>; \<open>url.split("/rest/thread/")[1]\<close> is the text between the first and the second
  occurrence, and \<open>.split("?")[0]\<close> the text before the first question mark.
\<close>

fun splitOnce :: "string \<Rightarrow> string \<Rightarrow> (string \<times> string) option" where
  "splitOnce sep [] = (if sep = [] then Some ([], []) else None)"
| "splitOnce sep (c # cs) =
     (if take (length sep) (c # cs) = sep then Some ([], drop (length sep) (c # cs))
      else (case splitOnce sep cs of None \<Rightarrow> None | Some (b, a) \<Rightarrow> Some (c # b, a)))"

definition beforeFirst :: "string \<Rightarrow> string \<Rightarrow> string" where
  "beforeFirst sep s = (case splitOnce sep s of None \<Rightarrow> s | Some (b, _) \<Rightarrow> b)"

text \<open>
  A network response as the handler sees it: \<open>json\<close> is \<open>None\<close> when \<open>response.json()\<close>
  throws, or when the body has no \<open>entries\<close>; in both cases the handler does nothing.
\<close>

record response =
  httpMethod :: string
  url :: string
  json :: "ConversationResponse option"

definition onResponse :: "(string \<rightharpoonup> ConversationResponse) \<Rightarrow> response
    \<Rightarrow> (string \<rightharpoonup> ConversationResponse)" where
  "onResponse capturedResponses resp =
     (if httpMethod resp = ''GET'' then
        (case splitOnce ''/rest/thread/'' (url resp) of
           None \<Rightarrow> capturedResponses
         | Some (_, rest) \<Rightarrow>
             (let threadId = beforeFirst ''?'' (beforeFirst ''/rest/thread/'' rest) in
              if threadId = ''list_recent'' then capturedResponses
              else (case json resp of
                      None \<Rightarrow> capturedResponses
                    | Some data \<Rightarrow> harvest capturedResponses threadId data)))
      else capturedResponses)"

section \<open>Pagination fetcher (\<open>ConversationSaver.fetchNextPages\<close>)\<close>

text \<open>
  What one \<open>page.evaluate\<close> call gives back. The in-page function returns either the parsed
  body of the response or, for a failed request, an object with \<open>error\<close> set and no entries;
  the call itself may also reject, which leaves \<open>fetchNextPages\<close> as an exception. A body
  without \<open>entries\<close> is represented by the empty list: the code treats both alike.
\<close>

record nextPageData = ConversationResponse +
  error :: "string option"

datatype evalResult = Replied nextPageData | Rejected string

text \<open>
  How a call ends: it returns, it throws, or it is still waiting for a reply when the
  replies known to the model are used up (the code waits on the server; a server that never
  stops offering pages keeps it waiting forever).
\<close>

datatype 'a run = Returned 'a | Threw string | Waiting

text \<open>The inner loop that picks the entries of a page whose uuid has not been seen.\<close>

fun collectNew :: "entry list \<Rightarrow> entry list \<times> string set \<Rightarrow> entry list \<times> string set" where
  "collectNew [] st = st"
| "collectNew (e # rest) (newEntries, seenUuids) =
     (if uuid e \<notin> seenUuids
      then collectNew rest (newEntries @ [e], insert (uuid e) seenUuids)
      else collectNew rest (newEntries, seenUuids))"

text \<open>
  The local variables of \<open>fetchNextPages\<close>, and \<open>requested\<close>: the cursors for which a page
  request has been issued, in order.
\<close>

record pagination =
  allEntries :: "entry list"
  seenUuids :: "string set"
  cursor :: "string option"
  hasNext :: bool
  pageNum :: nat
  requested :: "string list"

text \<open>
  The \<open>while (hasNext && cursor)\<close> loop; each iteration consumes the next reply. The two
  early \<open>break\<close>s (error reply, reply without entries) and the contradiction guard at the
  end of the body are the branches below.
\<close>

fun fetchLoop :: "evalResult list \<Rightarrow> pagination \<Rightarrow> pagination run" where
  "fetchLoop [] st = (if hasNext st \<and> truthy (cursor st) then Waiting else Returned st)"
| "fetchLoop (r # replies) st =
     (if hasNext st \<and> truthy (cursor st) then
        (let st1 = st\<lparr>pageNum := pageNum st + 1,
                      requested := requested st @ [the (cursor st)]\<rparr> in
         case r of
           Rejected msg \<Rightarrow> Threw msg
         | Replied nextPage \<Rightarrow>
             if truthy (error nextPage) then Returned st1
             else if entries nextPage = [] then Returned st1
             else
               (let (newEntries, seen) = collectNew (entries nextPage) ([], seenUuids st1);
                    hasNext1 = has_next_page nextPage;
                    cursor1 = next_cursor nextPage
                in fetchLoop replies
                     (st1\<lparr>allEntries := newEntries @ allEntries st1,
                          seenUuids := seen,
                          hasNext := (if hasNext1 \<and> \<not> truthy cursor1 then False else hasNext1),
                          cursor := cursor1\<rparr>)))
      else Returned st)"

definition fetchNextPages :: "evalResult list \<Rightarrow> string \<Rightarrow> ConversationResponse
    \<Rightarrow> (ConversationResponse \<times> string list) run" where
  "fetchNextPages replies threadId firstPage =
     (case fetchLoop replies
             \<lparr>allEntries = entries firstPage,
              seenUuids = set (map uuid (entries firstPage)),
              cursor = next_cursor firstPage,
              hasNext = has_next_page firstPage,
              pageNum = 1,
              requested = []\<rparr> of
        Returned st \<Rightarrow>
          Returned (firstPage\<lparr>entries := allEntries st, has_next_page := False,
                             next_cursor := None\<rparr>, requested st)
      | Threw msg \<Rightarrow> Threw msg
      | Waiting \<Rightarrow> Waiting)"

section \<open>Final ordering (\<open>ConversationSaver.loadThreadFromURL\<close>)\<close>

text \<open>
  \<open>new Date(s).getTime()\<close> is a parameter \<open>getTime\<close> of the model: the milliseconds since
  the epoch, or \<open>None\<close> for \<open>NaN\<close> (an invalid date). The sort key of an entry is
  \<open>new Date(a.updated_datetime || a.entry_updated_datetime || 0).getTime()\<close>.
\<close>

definition entryTime :: "(string \<Rightarrow> int option) \<Rightarrow> entry \<Rightarrow> int option" where
  "entryTime getTime a =
     (if truthy (updated_datetime a) then getTime (the (updated_datetime a))
      else if truthy (entry_updated_datetime a) then getTime (the (entry_updated_datetime a))
      else Some 0)"

text \<open>
  The comparator \<open>timeA - timeB\<close>; the difference is \<open>NaN\<close> when either time is, and
  \<open>Array.prototype.sort\<close> reads a \<open>NaN\<close> from its comparator as \<open>+0\<close>.
\<close>

definition compareEntries :: "(string \<Rightarrow> int option) \<Rightarrow> entry \<Rightarrow> entry \<Rightarrow> int" where
  "compareEntries getTime a b =
     (case (entryTime getTime a, entryTime getTime b) of
        (Some timeA, Some timeB) \<Rightarrow> timeA - timeB
      | _ \<Rightarrow> 0)"

text \<open>
  \<open>Array.prototype.sort\<close> is stable. For a comparator that is a consistent ordering all
  stable sorts return the same list, the one this insertion sort computes. The comparator
  above can be inconsistent only when some timestamp is not a valid date; the order is then
  left to the implementation, and the statements below are about valid timestamps.
\<close>

fun insertBy :: "('a \<Rightarrow> 'a \<Rightarrow> int) \<Rightarrow> 'a \<Rightarrow> 'a list \<Rightarrow> 'a list" where
  "insertBy cmp x [] = [x]"
| "insertBy cmp x (y # ys) = (if cmp x y \<le> 0 then x # y # ys else y # insertBy cmp x ys)"

definition sortBy :: "('a \<Rightarrow> 'a \<Rightarrow> int) \<Rightarrow> 'a list \<Rightarrow> 'a list" where
  "sortBy cmp xs = foldr (insertBy cmp) xs []"

text \<open>
  \<open>ThreadData\<close>, without the inline artifacts (they are read from the entry bodies, which
  are not modelled).
\<close>

record ThreadData =
  id_td :: string
  conversation :: ConversationResponse
  domUrls_td :: "string list"

text \<open>
  \<open>loadThreadFromURL\<close>. The thread id is the last path segment of the URL up to a question
  mark. The buffer of this id is dropped, then the page is driven: \<open>observed\<close> are the
  responses the harvester sees until the buffer is read (navigation errors are caught and
  only logged), \<open>found\<close> is what \<open>extractUrlsFromDOM\<close> finds, \<open>replies\<close> are the replies to
  the page requests of \<open>fetchNextPages\<close>. No buffer after the wait is the timeout error.
\<close>

definition timeoutMessage :: "string \<Rightarrow> string" where
  "timeoutMessage threadId = ''Timeout waiting for thread data API response for '' @ threadId"

definition loadThreadFromURL :: "(string \<Rightarrow> int option) \<Rightarrow> response list \<Rightarrow> string list
    \<Rightarrow> evalResult list \<Rightarrow> (string \<rightharpoonup> ConversationResponse) \<Rightarrow> string
    \<Rightarrow> ThreadData run" where
  "loadThreadFromURL getTime observed found replies capturedResponses pageUrl =
     (let threadIdFromUrl =
            takeWhile (\<lambda>c. c \<noteq> CHR ''?'') (rev (takeWhile (\<lambda>c. c \<noteq> CHR ''/'') (rev pageUrl)));
          captured = foldl onResponse (capturedResponses(threadIdFromUrl := None)) observed
      in case captured threadIdFromUrl of
           None \<Rightarrow> Threw (timeoutMessage threadIdFromUrl)
         | Some harvested \<Rightarrow>
             (let conversation0 = harvested\<lparr>domUrls := Some found\<rparr>;
                  fetched = (if has_next_page conversation0 \<or> truthy (next_cursor conversation0)
                             then fetchNextPages replies threadIdFromUrl conversation0
                             else Returned (conversation0, []))
              in case fetched of
                   Threw msg \<Rightarrow> Threw msg
                 | Waiting \<Rightarrow> Waiting
                 | Returned (finalConversation, _) \<Rightarrow>
                     Returned
                       \<lparr>id_td = threadIdFromUrl,
                        conversation = finalConversation
                          \<lparr>entries := sortBy (compareEntries getTime) (entries finalConversation)\<rparr>,
                        domUrls_td = found\<rparr>))"

section \<open>Incremental state store (\<open>utils.ts\<close>)\<close>

text \<open>
  JSON values as \<open>JSON.parse\<close> returns them. A number is represented by the text that
  \<open>String(n)\<close> gives for it. An object is the list of its members in the order of the text;
  when a key occurs twice the later member is the one a property access finds.
\<close>

datatype json =
    JNull
  | JBool bool
  | JNum string
  | JStr string
  | JArr "json list"
  | JObj "(string \<times> json) list"

text \<open>
  Property access \<open>raw.name\<close> on a value other than \<open>null\<close>; \<open>None\<close> is \<open>undefined\<close>.
  (On \<open>null\<close> the access throws a TypeError; the caller below handles that case first.)
\<close>

definition getProp :: "json \<Rightarrow> string \<Rightarrow> json option" where
  "getProp raw name = (case raw of JObj members \<Rightarrow> map_of (rev members) name | _ \<Rightarrow> None)"

text \<open>
  The property key that a value becomes when it is used as one (\<open>processed[url]\<close>):
  \<open>String(url)\<close>. An array is the comma-joined list of its elements, with \<open>null\<close> elements
  giving the empty text.
\<close>

fun joinWith :: "string \<Rightarrow> string list \<Rightarrow> string" where
  "joinWith sep [] = []"
| "joinWith sep [x] = x"
| "joinWith sep (x # y # ys) = x @ sep @ joinWith sep (y # ys)"

fun propertyKey :: "json \<Rightarrow> string" where
  "propertyKey JNull = ''null''"
| "propertyKey (JBool b) = (if b then ''true'' else ''false'')"
| "propertyKey (JNum text) = text"
| "propertyKey (JStr s) = s"
| "propertyKey (JArr xs) =
     joinWith '','' (map (\<lambda>x. if x = JNull then [] else propertyKey x) xs)"
| "propertyKey (JObj members) = ''[object Object]''"

text \<open>
  \<open>ProcessedThread\<close> and \<open>DoneFile\<close> of \<open>types.ts\<close>. The object \<open>processed\<close> is the list of
  its members in insertion order, with one member per key: assigning to a key that is
  present replaces its value in place, assigning to a new key appends a member. (The keys
  are thread URLs; they are neither array indices, which JavaScript enumerates first, nor
  names of members of \<open>Object.prototype\<close>, which the operator \<open>in\<close> would also find.)
\<close>

record ProcessedThread =
  lastUpdated :: string
  downloadedAt :: string

record DoneFile =
  processed :: "(string \<times> ProcessedThread) list"

text \<open>
  The view \<open>raw as DoneFile\<close> of a parsed file in the new format. TypeScript does not check
  the cast; a member field that is missing or not a string is represented by the empty
  text, which \<open>new Date\<close> rejects just as it rejects \<open>undefined\<close>.
\<close>

definition stringField :: "json \<Rightarrow> string \<Rightarrow> string" where
  "stringField v name = (case getProp v name of Some (JStr s) \<Rightarrow> s | _ \<Rightarrow> [])"

definition asDoneFile :: "json \<Rightarrow> DoneFile" where
  "asDoneFile raw =
     (case getProp raw ''processed'' of
        Some (JObj members) \<Rightarrow>
          \<lparr>processed =
             foldl (\<lambda>acc (key, v).
                      AList.update key
                        \<lparr>lastUpdated = stringField v ''lastUpdated'',
                         downloadedAt = stringField v ''downloadedAt''\<rparr> acc)
                   [] members\<rparr>
      | _ \<Rightarrow> \<lparr>processed = []\<rparr>)"

text \<open>The JSON value that \<open>JSON.stringify(doneFile, null, 2)\<close> writes.\<close>

definition toJson :: "DoneFile \<Rightarrow> json" where
  "toJson doneFile =
     JObj [(''processed'',
            JObj (map (\<lambda>(key, t). (key, JObj [(''lastUpdated'', JStr (lastUpdated t)),
                                                (''downloadedAt'', JStr (downloadedAt t))]))
                      (processed doneFile)))]"

text \<open>
  The file system: the content of each file that exists, and the paths at which a write
  fails (no space, no permission). The type \<open>'c\<close> of file contents is left open; the two
  functions \<open>parse\<close> (\<open>JSON.parse\<close>, \<open>None\<close> for a syntax error) and \<open>stringify\<close> connect it
  to JSON values and are parameters of the operations. Reading a missing file and writing
  to a refused path throw.
\<close>

record 'c disk =
  files :: "string \<rightharpoonup> 'c"
  refused :: "string set"

definition readFile :: "'c disk \<Rightarrow> string \<Rightarrow> 'c option" where
  "readFile d path = files d path"

definition writeFile :: "'c disk \<Rightarrow> string \<Rightarrow> 'c \<Rightarrow> 'c disk option" where
  "writeFile d path content =
     (if path \<in> refused d then None else Some (d\<lparr>files := (files d)(path \<mapsto> content)\<rparr>))"

text \<open>
  The migration loop \<open>for (const url of raw.processedUrls) processed[url] = {...}\<close>,
  started from the object \<open>acc\<close>.
\<close>

definition migrateUrls :: "string \<Rightarrow> json list \<Rightarrow> (string \<times> ProcessedThread) list
    \<Rightarrow> (string \<times> ProcessedThread) list" where
  "migrateUrls now urls acc =
     foldl (\<lambda>acc u. AList.update (propertyKey u) \<lparr>lastUpdated = now, downloadedAt = now\<rparr> acc)
           acc urls"

text \<open>
  \<open>loadDoneFile\<close>. The whole body is inside \<open>try\<close>; the \<open>catch\<close> logs and returns the empty
  state, so every exception of the body (unreadable file, syntax error, property access on
  \<open>null\<close>, failed write of the migrated file) ends in \<open>{ processed: {} }\<close>. \<open>now\<close> is
  \<open>new Date().toISOString()\<close> at the time of the migration. The function returns the state
  and the file system it leaves.
\<close>

definition loadDoneFile :: "('c \<Rightarrow> json option) \<Rightarrow> (json \<Rightarrow> 'c) \<Rightarrow> string \<Rightarrow> 'c disk \<Rightarrow> string
    \<Rightarrow> DoneFile \<times> 'c disk" where
  "loadDoneFile parse stringify now d doneFilePath =
     (case readFile d doneFilePath of
        None \<Rightarrow> (\<lparr>processed = []\<rparr>, d)
      | Some content \<Rightarrow>
          (case parse content of
             None \<Rightarrow> (\<lparr>processed = []\<rparr>, d)
           | Some JNull \<Rightarrow> (\<lparr>processed = []\<rparr>, d)
           | Some raw \<Rightarrow>
               (case getProp raw ''processed'' of
                  Some (JObj _) \<Rightarrow> (asDoneFile raw, d)
                | _ \<Rightarrow>
                    (case getProp raw ''processedUrls'' of
                       Some (JArr urls) \<Rightarrow>
                         (let migrated = \<lparr>processed = migrateUrls now urls []\<rparr>
                          in case writeFile d doneFilePath (stringify (toJson migrated)) of
                               None \<Rightarrow> (\<lparr>processed = []\<rparr>, d)
                             | Some d' \<Rightarrow> (migrated, d'))
                     | _ \<Rightarrow> (\<lparr>processed = []\<rparr>, d)))))"

text \<open>\<open>saveDoneFile\<close>: \<open>None\<close> when the write throws.\<close>

definition saveDoneFile :: "(json \<Rightarrow> 'c) \<Rightarrow> DoneFile \<Rightarrow> 'c disk \<Rightarrow> string \<Rightarrow> 'c disk option" where
  "saveDoneFile stringify doneFile d doneFilePath =
     writeFile d doneFilePath (stringify (toJson doneFile))"

definition isProcessed :: "DoneFile \<Rightarrow> string \<Rightarrow> bool" where
  "isProcessed doneFile u = (map_of (processed doneFile) u \<noteq> None)"

definition processedCount :: "DoneFile \<Rightarrow> nat" where
  "processedCount doneFile = length (processed doneFile)"

text \<open>\<open>markProcessed\<close>; \<open>now\<close> is \<open>new Date().toISOString()\<close> at the call.\<close>

definition markProcessed :: "string \<Rightarrow> DoneFile \<Rightarrow> string \<Rightarrow> string \<Rightarrow> DoneFile" where
  "markProcessed now doneFile u lastUpdatedText =
     doneFile\<lparr>processed :=
       AList.update u \<lparr>lastUpdated = lastUpdatedText, downloadedAt = now\<rparr> (processed doneFile)\<rparr>"

text \<open>\<open>s.includes(sub)\<close>.\<close>

definition includes_str :: "string \<Rightarrow> string \<Rightarrow> bool" where
  "includes_str s sub = (splitOnce sub s \<noteq> None)"

section \<open>Change detection (\<open>parseLibraryTimestamp\<close>, \<open>shouldReDownload\<close>)\<close>

text \<open>
  A \<open>char\<close> stands for one UTF-16 code unit below 256, so a text is a JavaScript string
  whose characters are all at most U+00FF; texts with other characters are outside the
  model. On this range \<open>isSpace\<close> is what \<open>trim\<close> and \<open>\s\<close>
  accept (tab, line feed, vertical tab, form feed, carriage return, space, no-break space),
  \<open>isDigit\<close> is \<open>\d\<close>, \<open>isWordChar\<close> is \<open>\w\<close>, and \<open>toLowerChar\<close> is \<open>toLowerCase\<close> on one
  code unit: the letters A to Z and the accented capitals U+00C0 to U+00DE, the
  multiplication sign U+00D7 excepted, move up by 32.
\<close>

definition isSpace :: "char \<Rightarrow> bool" where
  "isSpace c =
     (c \<in> set [CHR 0x09, CHR 0x0A, CHR 0x0B, CHR 0x0C, CHR 0x0D, CHR '' '', CHR 0xA0])"

definition isDigit :: "char \<Rightarrow> bool" where
  "isDigit c = (c \<in> set ''0123456789'')"

definition isWordChar :: "char \<Rightarrow> bool" where
  "isWordChar c =
     (c \<in> set ''abcdefghijklmnopqrstuvwxyzABCDEFGHIJKLMNOPQRSTUVWXYZ0123456789_'')"

definition toLowerChar :: "char \<Rightarrow> char" where
  "toLowerChar c =
     (case map_of
        (zip (''ABCDEFGHIJKLMNOPQRSTUVWXYZ''
              @ [CHR 0xC0, CHR 0xC1, CHR 0xC2, CHR 0xC3, CHR 0xC4, CHR 0xC5, CHR 0xC6, CHR 0xC7,
                 CHR 0xC8, CHR 0xC9, CHR 0xCA, CHR 0xCB, CHR 0xCC, CHR 0xCD, CHR 0xCE, CHR 0xCF,
                 CHR 0xD0, CHR 0xD1, CHR 0xD2, CHR 0xD3, CHR 0xD4, CHR 0xD5, CHR 0xD6,
                 CHR 0xD8, CHR 0xD9, CHR 0xDA, CHR 0xDB, CHR 0xDC, CHR 0xDD, CHR 0xDE])
             (''abcdefghijklmnopqrstuvwxyz''
              @ [CHR 0xE0, CHR 0xE1, CHR 0xE2, CHR 0xE3, CHR 0xE4, CHR 0xE5, CHR 0xE6, CHR 0xE7,
                 CHR 0xE8, CHR 0xE9, CHR 0xEA, CHR 0xEB, CHR 0xEC, CHR 0xED, CHR 0xEE, CHR 0xEF,
                 CHR 0xF0, CHR 0xF1, CHR 0xF2, CHR 0xF3, CHR 0xF4, CHR 0xF5, CHR 0xF6,
                 CHR 0xF8, CHR 0xF9, CHR 0xFA, CHR 0xFB, CHR 0xFC, CHR 0xFD, CHR 0xFE])) c of
        Some l \<Rightarrow> l
      | None \<Rightarrow> c)"

definition toLowerCase :: "string \<Rightarrow> string" where
  "toLowerCase s = map toLowerChar s"

definition trim :: "string \<Rightarrow> string" where
  "trim s = rev (dropWhile isSpace (rev (dropWhile isSpace s)))"

text \<open>\<open>s.replace(/CCL$/i, "")\<close>.\<close>

definition stripCCL :: "string \<Rightarrow> string" where
  "stripCCL s =
     (if 3 \<le> length s \<and> toLowerCase (drop (length s - 3) s) = ''ccl''
      then take (length s - 3) s else s)"

text \<open>\<open>parseInt(digits, 10)\<close> on a non-empty run of decimal digits.\<close>

definition digitValue :: "char \<Rightarrow> int" where
  "digitValue c = int (length (takeWhile (\<lambda>d. d \<noteq> c) ''0123456789''))"

definition parseInt :: "string \<Rightarrow> int" where
  "parseInt digits = foldl (\<lambda>n c. 10 * n + digitValue c) 0 digits"

text \<open>
  Dates are time values: milliseconds since the epoch, \<open>None\<close> for \<open>NaN\<close>. \<open>timeClip\<close> is
  the range check every \<open>Date\<close> setter ends with. Below the range limit the arithmetic of
  the setters is exact in double precision, so integers model it.
\<close>

definition msPerDay :: int where
  "msPerDay = 86400000"

definition timeClip :: "int \<Rightarrow> int option" where
  "timeClip v = (if \<bar>v\<bar> \<le> 8640000000000000 then Some v else None)"

text \<open>
  The time zone of the host: \<open>toLocal\<close> is ECMAScript's \<open>LocalTime\<close> and \<open>toUTC\<close> its
  \<open>UTC\<close>.
\<close>

record host =
  toLocal :: "int \<Rightarrow> int"
  toUTC :: "int \<Rightarrow> int"

text \<open>
  \<open>now.setSeconds(now.getSeconds() - amount)\<close> and its siblings for minutes, hours and
  days move the local time back by \<open>amount\<close> units of \<open>unitMs\<close> milliseconds.
\<close>

definition setBack :: "host \<Rightarrow> int \<Rightarrow> int \<Rightarrow> int \<Rightarrow> int option" where
  "setBack h now amount unitMs = timeClip (toUTC h (toLocal h now - amount * unitMs))"

text \<open>
  The civil calendar of ECMAScript (proleptic Gregorian): the day number of a date and the
  date of a day number, months counted from 1.
\<close>

definition daysFromCivil :: "int \<Rightarrow> int \<Rightarrow> int \<Rightarrow> int" where
  "daysFromCivil y m d =
     (let y1 = (if m \<le> 2 then y - 1 else y);
          era = y1 div 400;
          yoe = y1 - era * 400;
          doy = (153 * (if m > 2 then m - 3 else m + 9) + 2) div 5 + d - 1;
          doe = yoe * 365 + yoe div 4 - yoe div 100 + doy
      in era * 146097 + doe - 719468)"

definition civilFromDays :: "int \<Rightarrow> int \<times> int \<times> int" where
  "civilFromDays z =
     (let z1 = z + 719468;
          era = z1 div 146097;
          doe = z1 - era * 146097;
          yoe = (doe - doe div 1460 + doe div 36524 - doe div 146096) div 365;
          doy = doe - (365 * yoe + yoe div 4 - yoe div 100);
          mp = (5 * doy + 2) div 153;
          d = doy - (153 * mp + 2) div 5 + 1;
          m = (if mp < 10 then mp + 3 else mp - 9);
          y = yoe + era * 400
      in (if m \<le> 2 then y + 1 else y, m, d))"

text \<open>
  \<open>now.setMonth(now.getMonth() - amount)\<close>: \<open>MakeDay\<close> of the year, the month moved back
  and the same day of the month (a day past the end of the month runs into the next one),
  with the time within the day kept.
\<close>

definition setMonthBack :: "host \<Rightarrow> int \<Rightarrow> int \<Rightarrow> int option" where
  "setMonthBack h now amount =
     (let t = toLocal h now;
          (y, m, d) = civilFromDays (t div msPerDay);
          month = m - 1 - amount;
          day = daysFromCivil (y + month div 12) (month mod 12 + 1) 1 + d - 1
      in timeClip (toUTC h (day * msPerDay + t mod msPerDay)))"

text \<open>\<open>d.setHours(23, 59, 59, 999)\<close>.\<close>

definition endOfDay :: "host \<Rightarrow> int \<Rightarrow> int option" where
  "endOfDay h v =
     (let t = toLocal h v in timeClip (toUTC h (t - t mod msPerDay + 86399999)))"

text \<open>
  The two regular expressions. \<open>/^(\d+)([smhd])\b/\<close> gives the digits and the unit letter;
  \<open>/^(\d+)\s+(second|minute|hour|day|week|month)s?\s+ago$/\<close> gives the digits and the unit
  word. Neither has a choice to backtrack over: the digits are followed by a non-digit, no
  unit word is a prefix of another, and an \<open>s\<close> is not white space.
\<close>

definition shortRelMatch :: "string \<Rightarrow> (string \<times> char) option" where
  "shortRelMatch t =
     (let digits = takeWhile isDigit t; rest = dropWhile isDigit t in
      case rest of
        [] \<Rightarrow> None
      | unit # after \<Rightarrow>
          if digits \<noteq> [] \<and> unit \<in> set ''smhd'' \<and> (after = [] \<or> \<not> isWordChar (hd after))
          then Some (digits, unit) else None)"

definition relMatch :: "string \<Rightarrow> (string \<times> string) option" where
  "relMatch t =
     (let digits = takeWhile isDigit t;
          rest = dropWhile isDigit t;
          words = dropWhile isSpace rest
      in if digits = [] \<or> takeWhile isSpace rest = [] then None
         else
           (case find (\<lambda>w. take (length w) words = w)
                   [''second'', ''minute'', ''hour'', ''day'', ''week'', ''month''] of
              None \<Rightarrow> None
            | Some unit \<Rightarrow>
                (let after = drop (length unit) words;
                     after1 = (if after \<noteq> [] \<and> hd after = CHR ''s'' then tl after else after)
                 in if takeWhile isSpace after1 \<noteq> [] \<and> dropWhile isSpace after1 = ''ago''
                    then Some (digits, unit) else None)))"

text \<open>
  \<open>parseLibraryTimestamp\<close>. \<open>now\<close> is the time value of \<open>new Date()\<close>, \<open>getTime\<close> the
  parser of the \<open>Date\<close> constructor. The result is \<open>None\<close> for \<open>null\<close> and otherwise the
  time value of the returned \<open>Date\<close>.
\<close>

definition parseLibraryTimestamp :: "host \<Rightarrow> (string \<Rightarrow> int option) \<Rightarrow> int \<Rightarrow> string
    \<Rightarrow> int option option" where
  "parseLibraryTimestamp h getTime now text =
     (if text = [] then None
      else
        (let t = toLowerCase (trim (stripCCL (trim text))) in
         case shortRelMatch t of
           Some (digits, unit) \<Rightarrow>
             (let amount = parseInt digits in
              Some (if unit = CHR ''s'' then setBack h now amount 1000
                    else if unit = CHR ''m'' then setBack h now amount 60000
                    else if unit = CHR ''h'' then setBack h now amount 3600000
                    else setBack h now amount msPerDay))
         | None \<Rightarrow>
             (case relMatch t of
                Some (digits, unit) \<Rightarrow>
                  (let amount = parseInt digits in
                   Some (if unit = ''second'' then setBack h now amount 1000
                         else if unit = ''minute'' then setBack h now amount 60000
                         else if unit = ''hour'' then setBack h now amount 3600000
                         else if unit = ''day'' then setBack h now amount msPerDay
                         else if unit = ''week'' then setBack h now (amount * 7) msPerDay
                         else setMonthBack h now amount))
              | None \<Rightarrow>
                  if t = ''just now'' \<or> t = ''now'' then Some (Some now)
                  else
                    (case getTime (trim text) of
                       None \<Rightarrow> None
                     | Some d \<Rightarrow>
                         if \<not> includes_str text '':''
                            \<and> \<not> includes_str (toLowerCase text) ''am''
                            \<and> \<not> includes_str (toLowerCase text) ''pm''
                         then Some (endOfDay h d)
                         else Some (Some d)))))"

text \<open>
  \<open>shouldReDownload\<close>. The stored time it compares with is \<open>record.downloadedAt\<close>; a
  comparison with \<open>NaN\<close> on either side is false.
\<close>

definition shouldReDownload :: "host \<Rightarrow> (string \<Rightarrow> int option) \<Rightarrow> int \<Rightarrow> DoneFile \<Rightarrow> string
    \<Rightarrow> string option \<Rightarrow> bool" where
  "shouldReDownload h getTime now doneFile u libraryTimestamp =
     (if \<not> isProcessed doneFile u then True
      else if \<not> truthy libraryTimestamp then False
      else
        (case parseLibraryTimestamp h getTime now (the libraryTimestamp) of
           None \<Rightarrow> False
         | Some libDate \<Rightarrow>
             (case (libDate,
                    getTime (downloadedAt (the (map_of (processed doneFile) u)))) of
                (Some lib, Some downloaded) \<Rightarrow> lib > downloaded + 1000
              | _ \<Rightarrow> False)))"

section \<open>Run orchestrator (\<open>runAutoExport\<close>)\<close>

text \<open>
  \<open>logError\<close>. The log file is read and parsed inside a \<open>try\<close> whose \<open>catch\<close> is empty, so
  an unreadable or unparsable file counts as the empty list. What follows is not guarded:
  \<open>errors.push\<close> throws when the parsed value is not an array, and the write may fail.
  \<open>None\<close> is the exception; \<open>now\<close> is \<open>new Date().toISOString()\<close>.
\<close>

definition ERROR_FILE :: string where
  "ERROR_FILE = ''errors.json''"

definition logError :: "('c \<Rightarrow> json option) \<Rightarrow> (json \<Rightarrow> 'c) \<Rightarrow> string \<Rightarrow> 'c disk \<Rightarrow> string
    \<Rightarrow> string \<Rightarrow> 'c disk option" where
  "logError parse stringify now d u message =
     (let logged = (case readFile d ERROR_FILE of
                      None \<Rightarrow> JArr []
                    | Some content \<Rightarrow> (case parse content of None \<Rightarrow> JArr [] | Some j \<Rightarrow> j))
      in case logged of
           JArr items \<Rightarrow>
             writeFile d ERROR_FILE
               (stringify (JArr (items @ [JObj [(''url'', JStr u), (''error'', JStr message),
                                                (''timestamp'', JStr now)]])))
         | _ \<Rightarrow> None)"

text \<open>
  One call of \<open>loadThreadFromURL\<close> inside the retry loop either gives the thread data or
  throws an error with a message. In the second case the handler may consult the page:
  \<open>probe\<close> tells what \<open>isLoginPage\<close> and, if the login surface shows, the re-login give:
  no login surface, a login surface with a successful re-login, or an exception of one of
  the two calls (which is not caught inside the loop).
\<close>

datatype probe = NoLoginPage | LoginPage | Crashed string

datatype attempt = Loaded ThreadData | Failed string probe

text \<open>
  What the loop leaves in \<open>threadData\<close>: the data, or nothing (\<open>null\<close> or still
  \<open>undefined\<close>); or the loop is left by an exception.
\<close>

datatype fetched = Got ThreadData | Skipped | Aborted string

definition MAX_ATTEMPTS :: nat where
  "MAX_ATTEMPTS = 3"

text \<open>
  The \<open>while (attempts < MAX_ATTEMPTS)\<close> loop for the thread at \<open>u\<close>, on the file system
  \<open>d\<close>. \<open>outcome n\<close> is what the \<open>n\<close>-th attempt meets. Each \<open>await logError(...)\<close> sits in
  the \<open>catch\<close> block of the attempt, so an exception of \<open>logError\<close> leaves the loop.
\<close>

function retryLoop :: "('c \<Rightarrow> json option) \<Rightarrow> (json \<Rightarrow> 'c) \<Rightarrow> string \<Rightarrow> (nat \<Rightarrow> attempt)
    \<Rightarrow> string \<Rightarrow> nat \<Rightarrow> 'c disk \<Rightarrow> fetched \<times> 'c disk" where
  "retryLoop parse stringify now outcome u attempts d =
     (if attempts < MAX_ATTEMPTS then
        (case outcome (attempts + 1) of
           Loaded threadData \<Rightarrow> (Got threadData, d)
         | Failed message p \<Rightarrow>
             if includes_str message ''Perplexity API Error''
             then (case logError parse stringify now d u message of
                     None \<Rightarrow> (Aborted ''logError failed'', d)
                   | Some d' \<Rightarrow> (Skipped, d'))
             else if includes_str message ''Timeout waiting for thread data'' then
               (case p of
                  Crashed m \<Rightarrow> (Aborted m, d)
                | LoginPage \<Rightarrow> retryLoop parse stringify now outcome u (attempts + 1) d
                | NoLoginPage \<Rightarrow>
                    if attempts + 1 \<ge> MAX_ATTEMPTS
                    then (case logError parse stringify now d u
                                 ''Timeout waiting for API response'' of
                            None \<Rightarrow> (Aborted ''logError failed'', d)
                          | Some d' \<Rightarrow> (Skipped, d'))
                    else retryLoop parse stringify now outcome u (attempts + 1) d)
             else
               (case p of
                  Crashed m \<Rightarrow> (Aborted m, d)
                | LoginPage \<Rightarrow> retryLoop parse stringify now outcome u (attempts + 1) d
                | NoLoginPage \<Rightarrow>
                    if attempts + 1 \<ge> MAX_ATTEMPTS
                    then (case logError parse stringify now d u message of
                            None \<Rightarrow> (Aborted ''logError failed'', d)
                          | Some d' \<Rightarrow> (Skipped, d'))
                    else retryLoop parse stringify now outcome u (attempts + 1) d))
      else (Skipped, d))"
  by pat_completeness auto
termination
  by (relation "measure (\<lambda>(parse, stringify, now, outcome, u, attempts, d).
                  MAX_ATTEMPTS - attempts)") auto

text \<open>
  The timestamp stored with a processed thread: the greatest non-empty
  \<open>updated_datetime || entry_updated_datetime\<close> in the order of \<open>Array.prototype.sort\<close> on
  strings, or the current time when there is none.
\<close>

definition latestUpdated :: "string \<Rightarrow> ConversationResponse \<Rightarrow> string" where
  "latestUpdated now conv =
     (let stamps = filter (\<lambda>s. s \<noteq> [])
                     (map (\<lambda>e. if truthy (updated_datetime e) then the (updated_datetime e)
                               else if truthy (entry_updated_datetime e)
                                    then the (entry_updated_datetime e) else [])
                          (entries conv))
      in if stamps = [] then now else last (sort stamps))"

text \<open>
  The state of a run that the claims are about: the state store in memory and the file
  system, which holds \<open>done.json\<close> and \<open>errors.json\<close>.
\<close>

record 'c runState =
  doneFile :: DoneFile
  disk :: "'c disk"

datatype 'c step = Continue "'c runState" | Abort string "'c runState"

definition DONE_FILE :: string where
  "DONE_FILE = ''done.json''"

text \<open>
  \<open>updateStatus\<close> writes the status object to the status file; the write is not guarded.
  The object itself (counters, message, phase, time) is built by the caller and is left
  open here.
\<close>

definition STATUS_FILE :: string where
  "STATUS_FILE = ''status.json''"

definition updateStatus :: "(json \<Rightarrow> 'c) \<Rightarrow> 'c disk \<Rightarrow> json \<Rightarrow> 'c disk option" where
  "updateStatus stringify d shown = writeFile d STATUS_FILE (stringify shown)"

text \<open>
  One iteration of the \<open>for\<close> loop over the pending threads: the status update, the retry
  loop, and the steps on the thread data. \<open>exportFiles\<close> stands for the steps between the
  fetch and the commit (snapshot, artifacts, downloads, markdown) and \<open>publish\<close> for those
  after it (search index, status): each gives \<open>Some\<close> message when one of its steps
  throws. Nothing in the loop body outside the retry loop is guarded, so such an exception,
  like one of the status update or one that leaves the retry loop, ends the run in the
  outer \<open>catch\<close> of \<open>runAutoExport\<close>.
\<close>

definition processRecord :: "('c \<Rightarrow> json option) \<Rightarrow> (json \<Rightarrow> 'c) \<Rightarrow> string \<Rightarrow> (nat \<Rightarrow> attempt)
    \<Rightarrow> (ThreadData \<Rightarrow> string option) \<Rightarrow> (ThreadData \<Rightarrow> string option) \<Rightarrow> json
    \<Rightarrow> 'c runState \<Rightarrow> string \<Rightarrow> 'c step" where
  "processRecord parse stringify now outcome exportFiles publish shown st u =
     (case updateStatus stringify (disk st) shown of
        None \<Rightarrow> Abort ''updateStatus failed'' st
      | Some d0 \<Rightarrow>
     (case retryLoop parse stringify now outcome u 0 d0 of
        (Aborted m, d1) \<Rightarrow> Abort m (st\<lparr>disk := d1\<rparr>)
      | (Skipped, d1) \<Rightarrow> Continue (st\<lparr>disk := d1\<rparr>)
      | (Got threadData, d1) \<Rightarrow>
          (let st1 = st\<lparr>disk := d1\<rparr> in
           case exportFiles threadData of
             Some m \<Rightarrow> Abort m st1
           | None \<Rightarrow>
               (let marked = markProcessed now (doneFile st1) u
                               (latestUpdated now (conversation threadData));
                    st2 = st1\<lparr>doneFile := marked\<rparr>
                in case saveDoneFile stringify marked (disk st2) DONE_FILE of
                     None \<Rightarrow> Abort ''saveDoneFile failed'' st2
                   | Some d2 \<Rightarrow>
                       (case publish threadData of
                          Some m \<Rightarrow> Abort m (st2\<lparr>disk := d2\<rparr>)
                        | None \<Rightarrow> Continue (st2\<lparr>disk := d2\<rparr>))))))"


section \<open>Download synchronizer (\<open>DownloadManager\<close>)\<close>

text \<open>
  Promises are modelled by a store: the promise with identifier \<open>p\<close> is the \<open>p\<close>-th element
  of a list of promise states, and creating a promise appends a pending one. A stored
  \<open>resolve\<close> or \<open>reject\<close> function is the identifier of the promise it settles; settling a
  promise that is already settled does nothing, as in JavaScript. A promise is fulfilled
  with a file name, or with \<open>null\<close> (\<open>None\<close>), the value of \<open>await null\<close>.
\<close>

datatype failure = DownloadError string "nat option" | TriggerError string

datatype promiseState = Pending | Fulfilled "string option" | Broken failure

definition settle :: "promiseState list \<Rightarrow> nat \<Rightarrow> promiseState \<Rightarrow> promiseState list" where
  "settle ps p v = (if p < length ps \<and> ps ! p = Pending then ps[p := v] else ps)"

text \<open>The fields of the class.\<close>

record DownloadManager =
  downloadPath :: string
  lastDownloadedFile :: "string option"
  downloadPromise :: "nat option"
  downloadResolve :: "nat option"
  downloadReject :: "nat option"
  currentDownloadFilename :: "string option"

text \<open>
  The listeners of \<open>setupDownloadListener\<close>. \<open>pathJoin\<close> is \<open>path.join\<close> for a directory
  without a trailing separator and a plain file name.
\<close>

definition pathJoin :: "string \<Rightarrow> string \<Rightarrow> string" where
  "pathJoin dir name = dir @ ''/'' @ name"

definition downloadWillBegin :: "DownloadManager \<Rightarrow> string \<Rightarrow> DownloadManager" where
  "downloadWillBegin m suggestedFilename = m\<lparr>currentDownloadFilename := Some suggestedFilename\<rparr>"

datatype downloadState = InProgress | Completed | Canceled | Interrupted

definition downloadProgress :: "DownloadManager \<times> promiseState list \<Rightarrow> downloadState
    \<Rightarrow> string option \<Rightarrow> DownloadManager \<times> promiseState list" where
  "downloadProgress w st err =
     (let m = fst w; ps = snd w in
      if st = Completed \<and> truthy (currentDownloadFilename m) then
        (let file = pathJoin (downloadPath m) (the (currentDownloadFilename m));
             m1 = m\<lparr>lastDownloadedFile := Some file\<rparr>
         in case downloadResolve m1 of
              Some p \<Rightarrow> (m1\<lparr>downloadResolve := None, downloadReject := None,
                            currentDownloadFilename := None\<rparr>,
                         settle ps p (Fulfilled (Some file)))
            | None \<Rightarrow> (m1\<lparr>currentDownloadFilename := None\<rparr>, ps))
      else if st = Canceled \<or> st = Interrupted then
        (let isRateLimit = (case err of None \<Rightarrow> False
                            | Some e \<Rightarrow> includes_str e ''429'' \<or> includes_str e ''rate limit'');
             message = ''Download failed: '' @ (if truthy err then the err else ''Unknown error'')
         in case downloadReject m of
              Some p \<Rightarrow> (m\<lparr>downloadResolve := None, downloadReject := None,
                           currentDownloadFilename := None\<rparr>,
                         settle ps p
                           (Broken (DownloadError message (if isRateLimit then Some 429 else None))))
            | None \<Rightarrow> (m\<lparr>currentDownloadFilename := None\<rparr>, ps))
      else (m, ps))"

text \<open>
  \<open>waitForDownload\<close> is an asynchronous function: every call creates a promise of its own,
  the one its caller receives, and the body settles that promise when it returns or
  throws. The body has two suspension points. The progress of a call with result promise
  \<open>r\<close> is one of: running the caller's trigger; suspended in \<open>await this.downloadPromise\<close>
  on the value \<open>awaited\<close> that the field held when the \<open>await\<close> was reached; having
  returned the promise \<open>p\<close> found in \<open>downloadPromise\<close>, so that \<open>r\<close> follows \<open>p\<close> and is
  settled as \<open>p\<close> is, once \<open>p\<close> is settled; done, with \<open>r\<close> settled.
\<close>

datatype call =
    NotCalled
  | InTrigger nat
  | OwnerWait nat "nat option"
  | Follower nat nat
  | Done nat

text \<open>
  The synchronous start of a call. With a promise in \<open>downloadPromise\<close> the body returns it
  at once. Otherwise a new promise is created and its two functions are stored; without a
  trigger the body goes on to \<open>await this.downloadPromise\<close>.
\<close>

definition waitForDownload :: "DownloadManager \<times> promiseState list \<Rightarrow> bool
    \<Rightarrow> (DownloadManager \<times> promiseState list) \<times> call" where
  "waitForDownload w hasTrigger =
     (let m = fst w; ps = snd w; r = length ps in
      case downloadPromise m of
        Some p \<Rightarrow> ((m, ps @ [Pending]), Follower r p)
      | None \<Rightarrow>
          (let p = r + 1;
               m1 = m\<lparr>downloadPromise := Some p, downloadResolve := Some p,
                       downloadReject := Some p\<rparr>
           in ((m1, ps @ [Pending, Pending]),
               if hasTrigger then InTrigger r else OwnerWait r (downloadPromise m1))))"

text \<open>
  The continuation after \<open>await triggerDownload()\<close>: \<open>thrown\<close> is the error of the trigger,
  if it threw. Without an error the body reaches \<open>await this.downloadPromise\<close>. With an
  error the \<open>catch\<close> clears \<open>downloadPromise\<close> and rethrows, which rejects the call's result
  promise; the promise that was in \<open>downloadPromise\<close> and the two stored functions are left
  as they are.
\<close>

definition afterTrigger :: "DownloadManager \<times> promiseState list \<Rightarrow> call \<Rightarrow> string option
    \<Rightarrow> (DownloadManager \<times> promiseState list) \<times> call" where
  "afterTrigger w c thrown =
     (case c of
        InTrigger r \<Rightarrow>
          (case thrown of
             None \<Rightarrow> (w, OwnerWait r (downloadPromise (fst w)))
           | Some e \<Rightarrow> ((fst w\<lparr>downloadPromise := None\<rparr>,
                         settle (snd w) r (Broken (TriggerError e))), Done r))
      | _ \<Rightarrow> (w, c))"

text \<open>
  The continuation after \<open>await this.downloadPromise\<close>: the owner clears \<open>downloadPromise\<close>
  and returns the value, or clears it in the \<open>catch\<close> and rethrows the error. And the
  settlement of a follower's result promise. Neither runs while the awaited promise is
  pending.
\<close>

definition afterSettled :: "DownloadManager \<times> promiseState list \<Rightarrow> call
    \<Rightarrow> (DownloadManager \<times> promiseState list) \<times> call" where
  "afterSettled w c =
     (case c of
        OwnerWait r awaited \<Rightarrow>
          (case awaited of
             None \<Rightarrow> ((fst w\<lparr>downloadPromise := None\<rparr>, settle (snd w) r (Fulfilled None)),
                       Done r)
           | Some p \<Rightarrow>
               (if p < length (snd w) \<and> snd w ! p \<noteq> Pending
                then ((fst w\<lparr>downloadPromise := None\<rparr>, settle (snd w) r (snd w ! p)), Done r)
                else (w, c)))
      | Follower r p \<Rightarrow>
          (if p < length (snd w) \<and> snd w ! p \<noteq> Pending
           then ((fst w, settle (snd w) r (snd w ! p)), Done r)
           else (w, c))
      | _ \<Rightarrow> (w, c))"

text \<open>
  Three callers and the browser, interleaved: everything that can happen is one of the
  events below, and a history is a list of events. \<open>Call\<close> starts a caller's call (with or
  without a trigger), \<open>TriggerDone\<close> ends its trigger, \<open>Wake\<close> runs its continuation after
  the promise it waits for; \<open>Begin\<close> and \<open>Progress\<close> are the two browser events.
\<close>

datatype caller = CallerA | CallerB | CallerC

datatype event =
    Call caller bool
  | TriggerDone caller "string option"
  | Wake caller
  | Begin string
  | Progress downloadState "string option"

record session =
  mgr :: DownloadManager
  promises :: "promiseState list"
  calls :: "caller \<Rightarrow> call"

definition step :: "session \<Rightarrow> event \<Rightarrow> session" where
  "step s e =
     (case e of
        Call who hasTrigger \<Rightarrow>
          (if calls s who = NotCalled
           then (let (w, c) = waitForDownload (mgr s, promises s) hasTrigger
                 in s\<lparr>mgr := fst w, promises := snd w, calls := (calls s)(who := c)\<rparr>)
           else s)
      | TriggerDone who thrown \<Rightarrow>
          (let (w, c) = afterTrigger (mgr s, promises s) (calls s who) thrown
           in s\<lparr>mgr := fst w, promises := snd w, calls := (calls s)(who := c)\<rparr>)
      | Wake who \<Rightarrow>
          (let (w, c) = afterSettled (mgr s, promises s) (calls s who)
           in s\<lparr>mgr := fst w, promises := snd w, calls := (calls s)(who := c)\<rparr>)
      | Begin name \<Rightarrow> s\<lparr>mgr := downloadWillBegin (mgr s) name\<rparr>
      | Progress st err \<Rightarrow>
          (let w = downloadProgress (mgr s, promises s) st err
           in s\<lparr>mgr := fst w, promises := snd w\<rparr>))"

definition history :: "session \<Rightarrow> event list \<Rightarrow> session" where
  "history s es = foldl step s es"

text \<open>
  The promise a call has handed to its caller, and what the caller observes on it: nothing
  yet, a value, or an error.
\<close>

definition resultOf :: "call \<Rightarrow> nat option" where
  "resultOf c =
     (case c of
        NotCalled \<Rightarrow> None
      | InTrigger r \<Rightarrow> Some r
      | OwnerWait r awaited \<Rightarrow> Some r
      | Follower r p \<Rightarrow> Some r
      | Done r \<Rightarrow> Some r)"

datatype outcome = Resolved "string option" | Thrown failure

definition settledWith :: "promiseState \<Rightarrow> outcome option" where
  "settledWith st = (case st of Pending \<Rightarrow> None | Fulfilled file \<Rightarrow> Some (Resolved file)
                   | Broken e \<Rightarrow> Some (Thrown e))"

definition observedBy :: "session \<Rightarrow> caller \<Rightarrow> outcome option" where
  "observedBy s who =
     (case resultOf (calls s who) of
        None \<Rightarrow> None
      | Some r \<Rightarrow> if r < length (promises s) then settledWith (promises s ! r) else None)"

text \<open>
  The invariant of a session in which caller A waits on the promise \<open>p\<close> it created and
  caller B's result promise follows \<open>p\<close>: each of the two result promises \<open>a\<close> and \<open>b\<close> is
  pending while its call waits, and is settled as \<open>p\<close> is once its call is done. Nothing
  else in the session can settle \<open>a\<close> or \<open>b\<close>.
\<close>

definition sharing :: "nat \<Rightarrow> nat \<Rightarrow> nat \<Rightarrow> session \<Rightarrow> bool" where
  "sharing p a b s =
     (p < length (promises s) \<and> a < length (promises s) \<and> b < length (promises s)
      \<and> a \<noteq> b \<and> a \<noteq> p \<and> b \<noteq> p
      \<and> downloadResolve (mgr s) \<notin> {Some a, Some b}
      \<and> downloadReject (mgr s) \<notin> {Some a, Some b}
      \<and> resultOf (calls s CallerC) \<notin> {Some a, Some b}
      \<and> (calls s CallerA = OwnerWait a (Some p) \<and> promises s ! a = Pending
           \<or> calls s CallerA = Done a \<and> promises s ! a = promises s ! p
              \<and> promises s ! p \<noteq> Pending)
      \<and> (calls s CallerB = Follower b p \<and> promises s ! b = Pending
           \<or> calls s CallerB = Done b \<and> promises s ! b = promises s ! p
              \<and> promises s ! p \<noteq> Pending))"

text \<open>
  The state of a session in which caller B's result promise \<open>b\<close> follows a promise \<open>p\<close>
  that is pending and that no stored function can settle any more.
\<close>

definition stranded :: "nat \<Rightarrow> nat \<Rightarrow> session \<Rightarrow> bool" where
  "stranded p b s =
     (p < length (promises s) \<and> b < length (promises s)
      \<and> promises s ! p = Pending \<and> promises s ! b = Pending
      \<and> downloadResolve (mgr s) \<notin> {Some p, Some b}
      \<and> downloadReject (mgr s) \<notin> {Some p, Some b}
      \<and> resultOf (calls s CallerA) \<notin> {Some p, Some b}
      \<and> resultOf (calls s CallerC) \<notin> {Some p, Some b}
      \<and> calls s CallerB = Follower b p)"

text \<open>A call that is done, with its result promise settled with \<open>oc\<close>.\<close>

definition finished :: "caller \<Rightarrow> nat \<Rightarrow> outcome \<Rightarrow> session \<Rightarrow> bool" where
  "finished who r oc s =
     (calls s who = Done r \<and> r < length (promises s)
      \<and> settledWith (promises s ! r) = Some oc)"

section \<open>Sample payloads\<close>

text \<open>Small concrete payloads, used where a statement is evaluated at an input.\<close>

definition mkEntry :: "string \<Rightarrow> string option \<Rightarrow> entry" where
  "mkEntry u t = \<lparr>uuid = u, updated_datetime = t, entry_updated_datetime = None, body = u\<rparr>"

definition mkPage :: "entry list \<Rightarrow> bool \<Rightarrow> string option \<Rightarrow> ConversationResponse" where
  "mkPage es hasMore cur =
     \<lparr>status = ''completed'', entries = es, has_next_page = hasMore, next_cursor = cur,
      domUrls = None\<rparr>"

definition mkReply :: "entry list \<Rightarrow> bool \<Rightarrow> string option \<Rightarrow> evalResult" where
  "mkReply es hasMore cur =
     Replied \<lparr>status = ''completed'', entries = es, has_next_page = hasMore, next_cursor = cur,
              domUrls = None, error = None\<rparr>"

text \<open>A table of \<open>new Date(s).getTime()\<close> for the timestamps used in the examples.\<close>

definition sampleClock :: "string \<Rightarrow> int option" where
  "sampleClock = [''2026-01-01T00:00:01.000Z'' \<mapsto> 1767225601000,
                  ''2026-01-01T00:00:02.000Z'' \<mapsto> 1767225602000,
                  ''2026-01-01T01:00:00.000Z'' \<mapsto> 1767229200000,
                  ''2026-01-01T03:00:00.000Z'' \<mapsto> 1767236400000]"

text \<open>A host whose local time is UTC, and a state store with one processed thread.\<close>

definition utcHost :: host where
  "utcHost = \<lparr>toLocal = id, toUTC = id\<rparr>"

definition storedAt :: "string \<Rightarrow> string \<Rightarrow> DoneFile" where
  "storedAt updated downloaded =
     \<lparr>processed = [(''https://www.perplexity.ai/search/abc-123'',
                     \<lparr>lastUpdated = updated, downloadedAt = downloaded\<rparr>)]\<rparr>"

definition returned :: "'a run \<Rightarrow> 'a option" where
  "returned r = (case r of Returned x \<Rightarrow> Some x | _ \<Rightarrow> None)"

text \<open>
  In the examples a file's content is represented by what \<open>JSON.parse\<close> makes of it
  (\<open>None\<close> for text that is not JSON): \<open>parse\<close> is then the identity and \<open>stringify\<close>
  is \<open>Some\<close>.
\<close>

definition legacyDisk :: "json option disk" where
  "legacyDisk =
     \<lparr>files = [''done.json'' \<mapsto>
                 Some (JObj [(''processedUrls'',
                              JArr [JStr ''https://www.perplexity.ai/search/abc-123'',
                                    JStr ''https://www.perplexity.ai/search/def-456''])])],
      refused = {}\<rparr>"

definition emptyRun :: "json option runState" where
  "emptyRun = \<lparr>doneFile = \<lparr>processed = []\<rparr>, disk = \<lparr>files = Map.empty, refused = {}\<rparr>\<rparr>"

text \<open>
  Two records whose detail fetch fails at every attempt with the timeout error of
  \<open>loadThreadFromURL\<close>: for the first the login surface never shows, for the second it shows
  at the third attempt.
\<close>

definition timeoutOnly :: "string \<Rightarrow> nat \<Rightarrow> attempt" where
  "timeoutOnly u n =
     Failed ''Timeout waiting for thread data API response for abc-123'' NoLoginPage"

definition loginOnLastAttempt :: "string \<Rightarrow> nat \<Rightarrow> attempt" where
  "loginOnLastAttempt u n =
     Failed ''Timeout waiting for thread data API response for abc-123''
       (if n = 3 then LoginPage else NoLoginPage)"



definition savingStatus :: "string \<Rightarrow> json" where
  "savingStatus u =
     JObj [(''message'', JStr (''Saving: '' @ u)), (''phase'', JStr ''downloading'')]"


text \<open>A freshly created download manager, before any call.\<close>

definition idleSession :: session where
  "idleSession =
     \<lparr>mgr = \<lparr>downloadPath = ''downloads'', lastDownloadedFile = None,
             downloadPromise = None, downloadResolve = None, downloadReject = None,
             currentDownloadFilename = None\<rparr>,
      promises = [], calls = (\<lambda>who. NotCalled)\<rparr>"

section \<open>Properties of the harvester\<close>

lemma mergeEntries_shape:
  "\<exists>app s' n'. mergeEntries new (acc, seen, n) = (acc @ app, s', n')
      \<and> distinct (map uuid app)
      \<and> uuid ` set app \<inter> seen = {}
      \<and> set app \<subseteq> set new
      \<and> uuid ` set new \<subseteq> seen \<union> uuid ` set app"
proof (induction new arbitrary: acc seen n)
  case Nil
  then show ?case by simp
next
  case (Cons e es)
  show ?case
  proof (cases "uuid e \<in> seen")
    case True
    from Cons.IH[of acc seen n] obtain app s' n' where
      "mergeEntries es (acc, seen, n) = (acc @ app, s', n')" "distinct (map uuid app)"
      "uuid ` set app \<inter> seen = {}" "set app \<subseteq> set es"
      "uuid ` set es \<subseteq> seen \<union> uuid ` set app"
      by blast
    with True show ?thesis by auto
  next
    case False
    from Cons.IH[of "acc @ [e]" "insert (uuid e) seen" "n + 1"] obtain app s' n' where
      h: "mergeEntries es (acc @ [e], insert (uuid e) seen, n + 1) = ((acc @ [e]) @ app, s', n')"
      "distinct (map uuid app)"
      "uuid ` set app \<inter> insert (uuid e) seen = {}" "set app \<subseteq> set es"
      "uuid ` set es \<subseteq> insert (uuid e) seen \<union> uuid ` set app"
      by blast
    have "mergeEntries (e # es) (acc, seen, n) = (acc @ (e # app), s', n')"
      using False h(1) by simp
    moreover have "distinct (map uuid (e # app))" using h(2,3) by auto
    moreover have "uuid ` set (e # app) \<inter> seen = {}" using h(3) False by auto
    moreover have "set (e # app) \<subseteq> set (e # es)" using h(4) by auto
    moreover have "uuid ` set (e # es) \<subseteq> seen \<union> uuid ` set (e # app)" using h(5) by auto
    ultimately show ?thesis by blast
  qed
qed

lemma harvest_existing:
  assumes "capturedResponses threadId = Some existing"
  shows "\<exists>app. harvest capturedResponses threadId data threadId
           = Some ((if has_next_page data \<or> truthy (next_cursor data)
                    then existing\<lparr>has_next_page := has_next_page data,
                                  next_cursor := next_cursor data\<rparr>
                    else existing) \<lparr>entries := entries existing @ app\<rparr>)
      \<and> distinct (map uuid app)
      \<and> uuid ` set app \<inter> uuid ` set (entries existing) = {}
      \<and> set app \<subseteq> set (entries data)
      \<and> uuid ` set (entries data) \<subseteq> uuid ` set (entries existing) \<union> uuid ` set app"
proof -
  from mergeEntries_shape[of "entries data" "entries existing"
      "set (map uuid (entries existing))" 0]
  obtain app s' n' where
    h: "mergeEntries (entries data) (entries existing, set (map uuid (entries existing)), 0)
          = (entries existing @ app, s', n')"
      "distinct (map uuid app)"
      "uuid ` set app \<inter> set (map uuid (entries existing)) = {}"
      "set app \<subseteq> set (entries data)"
      "uuid ` set (entries data) \<subseteq> set (map uuid (entries existing)) \<union> uuid ` set app"
    by blast
  have "harvest capturedResponses threadId data threadId
           = Some ((if has_next_page data \<or> truthy (next_cursor data)
                    then existing\<lparr>has_next_page := has_next_page data,
                                  next_cursor := next_cursor data\<rparr>
                    else existing) \<lparr>entries := entries existing @ app\<rparr>)"
    using assms h(1) by (simp add: harvest_def Let_def)
  with h(2-5) show ?thesis by auto
qed

text \<open>
  C1 (as the code has it). When a payload \<open>data\<close> is observed for a thread id that already
  has a buffer \<open>existing\<close>, the buffer's entry list becomes the old list followed by a list
  \<open>app\<close> of entries of \<open>data\<close>: the uuids of the result are exactly the union of the uuids of
  the two payloads; a uuid of \<open>data\<close> is among the appended entries if and only if it was not
  in the buffer; the appended entries have pairwise different uuids. The result has no uuid
  twice whenever the buffered first payload had none twice (the first payload is stored as it
  arrives, so its own duplicates stay).
\<close>

theorem harvest_merge_union:
  assumes "capturedResponses threadId = Some existing"
  shows "\<exists>merged app.
           harvest capturedResponses threadId data threadId = Some merged
         \<and> entries merged = entries existing @ app
         \<and> set (map uuid (entries merged))
             = set (map uuid (entries existing)) \<union> set (map uuid (entries data))
         \<and> set app \<subseteq> set (entries data)
         \<and> distinct (map uuid app)
         \<and> (\<forall>e \<in> set (entries data).
               (uuid e \<in> uuid ` set app) = (uuid e \<notin> uuid ` set (entries existing)))
         \<and> (distinct (map uuid (entries existing)) \<longrightarrow> distinct (map uuid (entries merged)))"
proof -
  from harvest_existing[of capturedResponses threadId existing data] assms obtain app where
    h: "harvest capturedResponses threadId data threadId
           = Some ((if has_next_page data \<or> truthy (next_cursor data)
                    then existing\<lparr>has_next_page := has_next_page data,
                                  next_cursor := next_cursor data\<rparr>
                    else existing) \<lparr>entries := entries existing @ app\<rparr>)"
      "distinct (map uuid app)"
      "uuid ` set app \<inter> uuid ` set (entries existing) = {}"
      "set app \<subseteq> set (entries data)"
      "uuid ` set (entries data) \<subseteq> uuid ` set (entries existing) \<union> uuid ` set app"
    by blast
  let ?m = "(if has_next_page data \<or> truthy (next_cursor data)
            then existing\<lparr>has_next_page := has_next_page data, next_cursor := next_cursor data\<rparr>
            else existing) \<lparr>entries := entries existing @ app\<rparr>"
  have e: "entries ?m = entries existing @ app" by simp
  have u: "set (map uuid (entries ?m))
             = set (map uuid (entries existing)) \<union> set (map uuid (entries data))"
    using h(4,5) by (auto simp: e)
  have i: "\<forall>e \<in> set (entries data).
               (uuid e \<in> uuid ` set app) = (uuid e \<notin> uuid ` set (entries existing))"
    using h(3,5) by blast
  have d: "distinct (map uuid (entries existing)) \<longrightarrow> distinct (map uuid (entries ?m))"
    using h(2,3) by (auto simp: e)
  from h(1) e u h(4) h(2) i d show ?thesis by blast
qed

theorem harvest_merge_union_witness:
  "[''t1'' \<mapsto> mkPage [mkEntry ''a'' None, mkEntry ''b'' None] True (Some ''c1'')] ''t1''
     = Some (mkPage [mkEntry ''a'' None, mkEntry ''b'' None] True (Some ''c1''))
   \<and> distinct (map uuid [mkEntry ''a'' None, mkEntry ''b'' None])
   \<and> mkEntry ''c'' None \<in> set [mkEntry ''b'' None, mkEntry ''c'' None]
   \<and> (\<exists>merged.
        harvest [''t1'' \<mapsto> mkPage [mkEntry ''a'' None, mkEntry ''b'' None] True (Some ''c1'')]
          ''t1'' (mkPage [mkEntry ''b'' None, mkEntry ''c'' None] False None) ''t1'' = Some merged
      \<and> set (map uuid (entries merged)) = {''a'', ''b'', ''c''}
      \<and> distinct (map uuid (entries merged)))"
  using harvest_merge_union
    [of "[''t1'' \<mapsto> mkPage [mkEntry ''a'' None, mkEntry ''b'' None] True (Some ''c1'')]"
        "''t1''" "mkPage [mkEntry ''a'' None, mkEntry ''b'' None] True (Some ''c1'')"
        "mkPage [mkEntry ''b'' None, mkEntry ''c'' None] False None"]
  by (auto simp: mkPage_def mkEntry_def)

text \<open>
  The claim as stated fails when the first payload itself carries a uuid twice: it becomes
  the buffer unchanged, and a later merge keeps both copies.
\<close>

theorem harvest_duplicates_counterexample:
  "map uuid (entries (the (harvest
       (harvest Map.empty ''t1'' (mkPage [mkEntry ''a'' None, mkEntry ''a'' None] False None))
       ''t1'' (mkPage [mkEntry ''a'' None, mkEntry ''b'' None] False None) ''t1'')))
     = [''a'', ''a'', ''b'']"
  by (simp add: harvest_def mkPage_def mkEntry_def truthy_def Let_def)

text \<open>
  C9 (as the code has it). For an observation on an already buffered thread id, the buffer's
  \<open>has_next_page\<close> and \<open>next_cursor\<close> are overwritten with the observation's values exactly
  when the observation has \<open>has_next_page\<close> set or carries a non-empty cursor (the guard
  \<open>if (hasCursor)\<close>); otherwise both fields keep their previous values.
\<close>

theorem harvest_cursor_update:
  assumes "capturedResponses threadId = Some existing"
  shows "\<exists>merged. harvest capturedResponses threadId data threadId = Some merged
         \<and> (if has_next_page data \<or> truthy (next_cursor data)
            then has_next_page merged = has_next_page data
               \<and> next_cursor merged = next_cursor data
            else has_next_page merged = has_next_page existing
               \<and> next_cursor merged = next_cursor existing)"
proof -
  from harvest_existing[of capturedResponses threadId existing data] assms obtain app where
    "harvest capturedResponses threadId data threadId
           = Some ((if has_next_page data \<or> truthy (next_cursor data)
                    then existing\<lparr>has_next_page := has_next_page data,
                                  next_cursor := next_cursor data\<rparr>
                    else existing) \<lparr>entries := entries existing @ app\<rparr>)"
    by blast
  then show ?thesis by simp
qed

theorem harvest_cursor_update_witness:
  "[''t1'' \<mapsto> mkPage [mkEntry ''a'' None] False None] ''t1''
     = Some (mkPage [mkEntry ''a'' None] False None)
   \<and> (\<exists>merged.
        harvest [''t1'' \<mapsto> mkPage [mkEntry ''a'' None] False None]
          ''t1'' (mkPage [mkEntry ''b'' None] True (Some ''c2'')) ''t1'' = Some merged
      \<and> has_next_page merged \<and> next_cursor merged = Some ''c2'')"
  using harvest_cursor_update
    [of "[''t1'' \<mapsto> mkPage [mkEntry ''a'' None] False None]"
        "''t1''" "mkPage [mkEntry ''a'' None] False None"
        "mkPage [mkEntry ''b'' None] True (Some ''c2'')"]
  by (auto simp: mkPage_def mkEntry_def truthy_def)

text \<open>
  The claim as stated fails for an observation without a cursor: the buffer keeps the flag
  and the cursor of the earlier observation.
\<close>

theorem harvest_cursor_kept_counterexample:
  "has_next_page (the (harvest
       (harvest Map.empty ''t1'' (mkPage [mkEntry ''a'' None] True (Some ''c1'')))
       ''t1'' (mkPage [mkEntry ''b'' None] False None) ''t1''))
   \<and> next_cursor (the (harvest
       (harvest Map.empty ''t1'' (mkPage [mkEntry ''a'' None] True (Some ''c1'')))
       ''t1'' (mkPage [mkEntry ''b'' None] False None) ''t1'')) = Some ''c1''
   \<and> \<not> has_next_page (mkPage [mkEntry ''b'' None] False None)
   \<and> next_cursor (mkPage [mkEntry ''b'' None] False None) = None"
  by (simp add: harvest_def mkPage_def mkEntry_def truthy_def Let_def)

section \<open>Properties of the pagination fetcher\<close>

lemma fetchLoop_idle:
  "\<not> (hasNext st \<and> truthy (cursor st)) \<Longrightarrow> fetchLoop replies st = Returned st"
  by (cases replies) auto

lemma fetchLoop_last_page:
  assumes "hasNext st \<and> truthy (cursor st)"
    and "truthy (error d) \<or> entries d = [] \<or> \<not> has_next_page d \<or> \<not> truthy (next_cursor d)"
  shows "\<exists>st'. fetchLoop (Replied d # rest) st = Returned st'
           \<and> requested st' = requested st @ [the (cursor st)]"
  using assms by (auto simp: Let_def fetchLoop_idle split: prod.splits)

text \<open>
  C5 (as the code has it). A first page with \<open>has_next_page\<close> set and a null (or empty)
  cursor makes \<open>fetchNextPages\<close> return at once, whatever the server would reply: no page
  request is issued and the result is the first page with its entries unchanged and the
  pagination fields cleared. In general the loop stops as soon as \<open>hasNext\<close> is false or the
  cursor is null or empty, and the page just requested is the last one when its reply
  reports an error, has no entries at all, has \<open>has_next_page\<close> false or has no cursor.
  (A reply whose entries are all known already does not stop the loop.)
\<close>

theorem fetchNextPages_stops:
  "(has_next_page firstPage \<and> \<not> truthy (next_cursor firstPage) \<longrightarrow>
      fetchNextPages replies threadId firstPage
        = Returned (firstPage\<lparr>has_next_page := False, next_cursor := None\<rparr>, []))
   \<and> (\<not> (hasNext idle \<and> truthy (cursor idle)) \<longrightarrow> fetchLoop replies idle = Returned idle)
   \<and> (hasNext st \<and> truthy (cursor st)
        \<and> (truthy (error d) \<or> entries d = [] \<or> \<not> has_next_page d \<or> \<not> truthy (next_cursor d))
      \<longrightarrow> (\<exists>st'. fetchLoop (Replied d # rest) st = Returned st'
               \<and> requested st' = requested st @ [the (cursor st)]))"
proof (intro conjI impI)
  assume a: "has_next_page firstPage \<and> \<not> truthy (next_cursor firstPage)"
  show "fetchNextPages replies threadId firstPage
        = Returned (firstPage\<lparr>has_next_page := False, next_cursor := None\<rparr>, [])"
    using a by (simp add: fetchNextPages_def fetchLoop_idle)
next
  assume "\<not> (hasNext idle \<and> truthy (cursor idle))"
  then show "fetchLoop replies idle = Returned idle" by (rule fetchLoop_idle)
next
  assume "hasNext st \<and> truthy (cursor st)
        \<and> (truthy (error d) \<or> entries d = [] \<or> \<not> has_next_page d \<or> \<not> truthy (next_cursor d))"
  then show "\<exists>st'. fetchLoop (Replied d # rest) st = Returned st'
               \<and> requested st' = requested st @ [the (cursor st)]"
    using fetchLoop_last_page by blast
qed

theorem fetchNextPages_stops_witness:
  "has_next_page (mkPage [mkEntry ''a'' None] True None)
   \<and> \<not> truthy (next_cursor (mkPage [mkEntry ''a'' None] True None))
   \<and> fetchNextPages [mkReply [mkEntry ''b'' None] True (Some ''c2'')] ''t1''
        (mkPage [mkEntry ''a'' None] True None)
      = Returned (mkPage [mkEntry ''a'' None] False None, [])
   \<and> \<not> (hasNext \<lparr>allEntries = [], seenUuids = {}, cursor = Some ''c1'', hasNext = False,
                   pageNum = 1, requested = []\<rparr>
          \<and> truthy (cursor \<lparr>allEntries = [], seenUuids = {}, cursor = Some ''c1'',
                             hasNext = False, pageNum = 1, requested = []\<rparr>))
   \<and> fetchLoop [mkReply [mkEntry ''b'' None] True (Some ''c2'')]
        \<lparr>allEntries = [], seenUuids = {}, cursor = Some ''c1'', hasNext = False,
         pageNum = 1, requested = []\<rparr>
      = Returned \<lparr>allEntries = [], seenUuids = {}, cursor = Some ''c1'', hasNext = False,
                  pageNum = 1, requested = []\<rparr>
   \<and> hasNext \<lparr>allEntries = [], seenUuids = {}, cursor = Some ''c1'', hasNext = True,
               pageNum = 1, requested = []\<rparr>
   \<and> truthy (cursor \<lparr>allEntries = [], seenUuids = {}, cursor = Some ''c1'', hasNext = True,
                      pageNum = 1, requested = []\<rparr>)
   \<and> (\<exists>st'. fetchLoop
          [Replied \<lparr>status = ''completed'', entries = [], has_next_page = True,
                    next_cursor = Some ''c2'', domUrls = None, error = None\<rparr>]
          \<lparr>allEntries = [], seenUuids = {}, cursor = Some ''c1'', hasNext = True,
           pageNum = 1, requested = []\<rparr> = Returned st'
        \<and> requested st' = [''c1''])"
  using fetchNextPages_stops
    [of "mkPage [mkEntry ''a'' None] True None"
        "[mkReply [mkEntry ''b'' None] True (Some ''c2'')]" "''t1''"
        "\<lparr>allEntries = [], seenUuids = {}, cursor = Some ''c1'', hasNext = False,
          pageNum = 1, requested = []\<rparr>"
        "\<lparr>allEntries = [], seenUuids = {}, cursor = Some ''c1'', hasNext = True,
          pageNum = 1, requested = []\<rparr>"
        "\<lparr>status = ''completed'', entries = [], has_next_page = True,
          next_cursor = Some ''c2'', domUrls = None, error = None\<rparr>"
        "[]"]
  by (simp add: mkPage_def mkEntry_def truthy_def)

text \<open>
  The claim as stated fails for a page that contributes zero new entries but is not empty:
  the reply to cursor \<open>c1\<close> repeats the known entry \<open>a\<close> and offers cursor \<open>c2\<close>, and the
  fetcher goes on to request \<open>c2\<close>.
\<close>

theorem fetchNextPages_duplicate_page_counterexample:
  "fetchNextPages
     [mkReply [mkEntry ''a'' None] True (Some ''c2''), mkReply [] False None]
     ''t1'' (mkPage [mkEntry ''a'' None] True (Some ''c1''))
   = Returned (mkPage [mkEntry ''a'' None] False None, [''c1'', ''c2''])"
  by (simp add: fetchNextPages_def mkReply_def mkPage_def mkEntry_def truthy_def Let_def)

text \<open>
  A server that answers every page request with the same known entries, \<open>has_next_page\<close>
  set and a cursor keeps the fetcher requesting: after any number of such replies it is
  still waiting for the next one.
\<close>

lemma collectNew_known:
  "uuid ` set es \<subseteq> seen \<Longrightarrow> collectNew es (acc, seen) = (acc, seen)"
  by (induction es) auto

lemma repeated_page_keeps_fetching:
  assumes "hasNext st" and "cursor st = Some c" and "c \<noteq> []"
    and "es \<noteq> []" and "uuid ` set es \<subseteq> seenUuids st"
  shows "fetchLoop (replicate n (mkReply es True (Some c))) st = Waiting"
  using assms
proof (induction n arbitrary: st)
  case 0
  then show ?case by (simp add: truthy_def)
next
  case (Suc n)
  let ?st = "st\<lparr>pageNum := pageNum st + 1, requested := requested st @ [c]\<rparr>"
  have "fetchLoop (replicate (Suc n) (mkReply es True (Some c))) st
          = fetchLoop (replicate n (mkReply es True (Some c)))
              (?st\<lparr>allEntries := [] @ allEntries ?st, seenUuids := seenUuids st,
                    hasNext := True, cursor := Some c\<rparr>)"
    using Suc.prems by (simp add: mkReply_def truthy_def collectNew_known Let_def)
  also have "\<dots> = Waiting"
    using Suc.prems by (intro Suc.IH) simp_all
  finally show ?case .
qed

lemma fetchLoop_reaches_stop:
  assumes "\<forall>r \<in> set pre. \<exists>page. r = Replied page"
    and "truthy (error d) \<or> entries d = [] \<or> \<not> has_next_page d \<or> \<not> truthy (next_cursor d)"
  shows "\<exists>st'. fetchLoop (pre @ Replied d # rest) st = Returned st'"
  using assms(1)
proof (induction pre arbitrary: st)
  case Nil
  show ?case
  proof (cases "hasNext st \<and> truthy (cursor st)")
    case True
    from fetchLoop_last_page[OF True assms(2), of rest] show ?thesis by auto
  next
    case False
    from fetchLoop_idle[OF False] show ?thesis by blast
  qed
next
  case (Cons r pre)
  then obtain page where r: "r = Replied page" by auto
  from Cons.prems have pre: "\<forall>r \<in> set pre. \<exists>page. r = Replied page" by simp
  show ?case
  proof (cases "hasNext st \<and> truthy (cursor st)")
    case False
    from fetchLoop_idle[OF False] show ?thesis by blast
  next
    case True
    show ?thesis
    proof (cases "truthy (error page) \<or> entries page = []")
      case True
      with \<open>hasNext st \<and> truthy (cursor st)\<close> r show ?thesis by (auto simp: Let_def)
    next
      case False
      with True r Cons.IH[OF pre] show ?thesis
        by (auto simp: Let_def split: prod.splits)
    qed
  qed
qed

lemma fetchNextPages_of_loop:
  "fetchLoop replies
     \<lparr>allEntries = entries firstPage, seenUuids = set (map uuid (entries firstPage)),
      cursor = next_cursor firstPage, hasNext = has_next_page firstPage, pageNum = 1,
      requested = []\<rparr> = Returned st
   \<Longrightarrow> fetchNextPages replies threadId firstPage
       = Returned (firstPage\<lparr>entries := allEntries st, has_next_page := False,
                              next_cursor := None\<rparr>, requested st)"
  by (simp add: fetchNextPages_def)

text \<open>
  C10. Every conversation that \<open>fetchNextPages\<close> returns has \<open>has_next_page = false\<close> and
  \<open>next_cursor = null\<close>, and it does return one however the loop ends: whenever the loop
  ends in a state \<open>st\<close>, the function returns the first page with the entries of \<open>st\<close> and
  the two fields cleared; and the loop does end whenever no page request throws and some
  reply reports an error (page-request error), has no entries (the guard), has
  \<open>has_next_page\<close> false (exhaustion) or has no cursor (exhaustion, or the contradiction
  when \<open>has_next_page\<close> is set), at that reply at the latest.
\<close>

theorem fetchNextPages_clears_cursor:
  "(fetchNextPages replies threadId firstPage = Returned (conv, reqs)
      \<longrightarrow> \<not> has_next_page conv \<and> next_cursor conv = None)
   \<and> (fetchLoop replies
         \<lparr>allEntries = entries firstPage, seenUuids = set (map uuid (entries firstPage)),
          cursor = next_cursor firstPage, hasNext = has_next_page firstPage, pageNum = 1,
          requested = []\<rparr> = Returned st
      \<longrightarrow> fetchNextPages replies threadId firstPage
            = Returned (firstPage\<lparr>entries := allEntries st, has_next_page := False,
                                   next_cursor := None\<rparr>, requested st))
   \<and> ((\<forall>r \<in> set pre. \<exists>page. r = Replied page)
        \<and> (truthy (error d) \<or> entries d = [] \<or> \<not> has_next_page d \<or> \<not> truthy (next_cursor d))
      \<longrightarrow> (\<exists>c rs. fetchNextPages (pre @ Replied d # rest) threadId firstPage = Returned (c, rs)
              \<and> \<not> has_next_page c \<and> next_cursor c = None))"
proof -
  have 1: "fetchNextPages replies threadId firstPage = Returned (conv, reqs)
      \<longrightarrow> \<not> has_next_page conv \<and> next_cursor conv = None"
    by (auto simp: fetchNextPages_def split: run.splits)
  have 2: "fetchLoop replies
         \<lparr>allEntries = entries firstPage, seenUuids = set (map uuid (entries firstPage)),
          cursor = next_cursor firstPage, hasNext = has_next_page firstPage, pageNum = 1,
          requested = []\<rparr> = Returned st
      \<longrightarrow> fetchNextPages replies threadId firstPage
            = Returned (firstPage\<lparr>entries := allEntries st, has_next_page := False,
                                   next_cursor := None\<rparr>, requested st)"
    using fetchNextPages_of_loop by blast
  have 3: "(\<forall>r \<in> set pre. \<exists>page. r = Replied page)
        \<and> (truthy (error d) \<or> entries d = [] \<or> \<not> has_next_page d \<or> \<not> truthy (next_cursor d))
      \<longrightarrow> (\<exists>c rs. fetchNextPages (pre @ Replied d # rest) threadId firstPage = Returned (c, rs)
              \<and> \<not> has_next_page c \<and> next_cursor c = None)"
  proof
    assume a: "(\<forall>r \<in> set pre. \<exists>page. r = Replied page)
        \<and> (truthy (error d) \<or> entries d = [] \<or> \<not> has_next_page d \<or> \<not> truthy (next_cursor d))"
    then obtain st' where
      "fetchLoop (pre @ Replied d # rest)
         \<lparr>allEntries = entries firstPage, seenUuids = set (map uuid (entries firstPage)),
          cursor = next_cursor firstPage, hasNext = has_next_page firstPage, pageNum = 1,
          requested = []\<rparr> = Returned st'"
      using fetchLoop_reaches_stop by blast
    then have "fetchNextPages (pre @ Replied d # rest) threadId firstPage
         = Returned (firstPage\<lparr>entries := allEntries st', has_next_page := False,
                                next_cursor := None\<rparr>, requested st')"
      by (rule fetchNextPages_of_loop)
    then show "\<exists>c rs. fetchNextPages (pre @ Replied d # rest) threadId firstPage = Returned (c, rs)
              \<and> \<not> has_next_page c \<and> next_cursor c = None"
      by simp
  qed
  from 1 2 3 show ?thesis by blast
qed

text \<open>
  A first page with cursor \<open>c1\<close>, one older page with cursor \<open>c2\<close>, then a failed page
  request.
\<close>

theorem fetchNextPages_clears_cursor_witness:
  "fetchLoop
     [mkReply [mkEntry ''b'' None] True (Some ''c2''),
      Replied \<lparr>status = ''failed'', entries = [], has_next_page = False, next_cursor = None,
               domUrls = None, error = Some ''HTTP 500''\<rparr>]
     \<lparr>allEntries = [mkEntry ''a'' None], seenUuids = {''a''}, cursor = Some ''c1'',
      hasNext = True, pageNum = 1, requested = []\<rparr>
   = Returned \<lparr>allEntries = [mkEntry ''b'' None, mkEntry ''a'' None],
               seenUuids = {''b'', ''a''}, cursor = Some ''c2'', hasNext = True, pageNum = 3,
               requested = [''c1'', ''c2'']\<rparr>
   \<and> truthy (error \<lparr>status = ''failed'', entries = [], has_next_page = False,
                     next_cursor = None, domUrls = None, error = Some ''HTTP 500''\<rparr>)
   \<and> fetchNextPages
       [mkReply [mkEntry ''b'' None] True (Some ''c2''),
        Replied \<lparr>status = ''failed'', entries = [], has_next_page = False, next_cursor = None,
                 domUrls = None, error = Some ''HTTP 500''\<rparr>]
       ''t1'' (mkPage [mkEntry ''a'' None] True (Some ''c1''))
     = Returned (mkPage [mkEntry ''b'' None, mkEntry ''a'' None] False None, [''c1'', ''c2''])
   \<and> \<not> has_next_page (mkPage [mkEntry ''b'' None, mkEntry ''a'' None] False None)
   \<and> next_cursor (mkPage [mkEntry ''b'' None, mkEntry ''a'' None] False None) = None"
  using fetchNextPages_clears_cursor
    [of "[mkReply [mkEntry ''b'' None] True (Some ''c2''),
          Replied \<lparr>status = ''failed'', entries = [], has_next_page = False,
                   next_cursor = None, domUrls = None, error = Some ''HTTP 500''\<rparr>]"
        "''t1''" "mkPage [mkEntry ''a'' None] True (Some ''c1'')"
        "mkPage [mkEntry ''b'' None, mkEntry ''a'' None] False None" "[''c1'', ''c2'']"
        "\<lparr>allEntries = [mkEntry ''b'' None, mkEntry ''a'' None],
          seenUuids = {''b'', ''a''}, cursor = Some ''c2'', hasNext = True, pageNum = 3,
          requested = [''c1'', ''c2'']\<rparr>"
        "[mkReply [mkEntry ''b'' None] True (Some ''c2'')]"
        "\<lparr>status = ''failed'', entries = [], has_next_page = False, next_cursor = None,
          domUrls = None, error = Some ''HTTP 500''\<rparr>"
        "[]"]
  by (simp add: fetchNextPages_def mkReply_def mkPage_def mkEntry_def truthy_def Let_def)

section \<open>Properties of the final ordering\<close>

lemma mset_insertBy: "mset (insertBy cmp x ys) = add_mset x (mset ys)"
  by (induction ys) auto

lemma mset_sortBy: "mset (sortBy cmp xs) = mset xs"
  by (induction xs) (auto simp: sortBy_def mset_insertBy)

lemma set_sortBy: "set (sortBy cmp xs) = set xs"
  using mset_sortBy[of cmp xs] by (metis set_mset_mset)

lemma insertBy_insort:
  "\<forall>e \<in> set (x # ys). entryTime T e \<noteq> None \<Longrightarrow>
     insertBy (compareEntries T) x ys = insort_key (\<lambda>e. the (entryTime T e)) x ys"
  by (induction ys) (auto simp: compareEntries_def)

lemma sortBy_sort_key:
  "\<forall>e \<in> set xs. entryTime T e \<noteq> None \<Longrightarrow>
     sortBy (compareEntries T) xs = sort_key (\<lambda>e. the (entryTime T e)) xs"
proof (induction xs)
  case Nil
  then show ?case by (simp add: sortBy_def)
next
  case (Cons x xs)
  have "sortBy (compareEntries T) (x # xs)
          = insertBy (compareEntries T) x (sortBy (compareEntries T) xs)"
    by (simp add: sortBy_def)
  also have "\<dots> = insertBy (compareEntries T) x (sort_key (\<lambda>e. the (entryTime T e)) xs)"
    using Cons by simp
  also have "\<dots> = insort_key (\<lambda>e. the (entryTime T e)) x
                     (sort_key (\<lambda>e. the (entryTime T e)) xs)"
    using Cons.prems by (intro insertBy_insort) auto
  finally show ?case by simp
qed

lemma distinct_map_the:
  "distinct ys \<Longrightarrow> None \<notin> set ys \<Longrightarrow> distinct (map the ys)"
proof (induction ys)
  case Nil
  then show ?case by simp
next
  case (Cons y ys)
  then obtain v where v: "y = Some v" by (cases y) auto
  have "v \<notin> the ` set ys"
  proof
    assume "v \<in> the ` set ys"
    then obtain z where z: "z \<in> set ys" "v = the z" by blast
    with Cons.prems(2) have "z = Some v" by (cases z) auto
    with z(1) v Cons.prems(1) show False by simp
  qed
  with Cons v show ?case by simp
qed

lemma loadThread_entries:
  "loadThreadFromURL getTime observed found replies captured pageUrl = Returned td
   \<Longrightarrow> \<exists>es. entries (conversation td) = sortBy (compareEntries getTime) es"
  by (auto simp: loadThreadFromURL_def Let_def
           split: option.splits run.splits if_splits prod.splits)

text \<open>
  Why the statement below asks for valid dates: next to an entry whose timestamp does not
  parse, every comparison gives 0, and the sort of this model leaves a later entry in
  front of an earlier one.
\<close>

lemma invalid_date_breaks_order:
  "map uuid (sortBy (compareEntries sampleClock)
     [mkEntry ''a'' (Some ''2026-01-01T00:00:02.000Z''),
      mkEntry ''b'' (Some ''yesterday''),
      mkEntry ''c'' (Some ''2026-01-01T00:00:01.000Z'')]) = [''a'', ''b'', ''c'']"
  by (simp add: sortBy_def compareEntries_def entryTime_def truthy_def mkEntry_def
      sampleClock_def)

text \<open>
  C2 (as the code has it). For every thread that \<open>loadThreadFromURL\<close> returns, whatever was
  harvested and paginated in whatever order: if every entry's timestamp is a valid date,
  the entries are in ascending (non-decreasing) order of
  \<open>updated_datetime || entry_updated_datetime\<close>, and sorting them again changes nothing.
  The order is strict when no two entries share a timestamp.
\<close>

theorem loadThread_sorted:
  assumes "loadThreadFromURL getTime observed found replies captured pageUrl = Returned td"
    and "\<forall>e \<in> set (entries (conversation td)). entryTime getTime e \<noteq> None"
  shows "sorted (map (\<lambda>e. the (entryTime getTime e)) (entries (conversation td)))
       \<and> sortBy (compareEntries getTime) (entries (conversation td)) = entries (conversation td)
       \<and> (distinct (map (entryTime getTime) (entries (conversation td))) \<longrightarrow>
            sorted_wrt (<) (map (\<lambda>e. the (entryTime getTime e)) (entries (conversation td))))"
proof -
  let ?k = "\<lambda>e. the (entryTime getTime e)"
  let ?r = "entries (conversation td)"
  from loadThread_entries[OF assms(1)] obtain es where
    es: "?r = sortBy (compareEntries getTime) es" by blast
  have v: "\<forall>e \<in> set es. entryTime getTime e \<noteq> None"
    using assms(2) by (simp add: es set_sortBy)
  have r: "?r = sort_key ?k es" using es sortBy_sort_key[OF v] by simp
  have s: "sorted (map ?k ?r)" by (simp add: r)
  have i: "sortBy (compareEntries getTime) ?r = ?r"
    using sortBy_sort_key[OF assms(2)] s by (simp add: sort_key_id_if_sorted)
  have d: "sorted_wrt (<) (map ?k ?r)" if "distinct (map (entryTime getTime) ?r)"
  proof -
    have "None \<notin> set (map (entryTime getTime) ?r)" using assms(2) by auto
    with that have "distinct (map the (map (entryTime getTime) ?r))"
      by (rule distinct_map_the)
    then have "distinct (map ?k ?r)" by (simp add: comp_def)
    with s show ?thesis by (simp add: strict_sorted_iff)
  qed
  from s i d show ?thesis by blast
qed

theorem loadThread_sorted_witness:
  "loadThreadFromURL sampleClock
     [\<lparr>httpMethod = ''GET'', url = ''https://www.perplexity.ai/rest/thread/abc-123?limit=10'',
       json = Some (mkPage [mkEntry ''a'' (Some ''2026-01-01T00:00:02.000Z''),
                            mkEntry ''b'' (Some ''2026-01-01T00:00:01.000Z'')] False None)\<rparr>]
     [] [] Map.empty ''https://www.perplexity.ai/search/abc-123''
   = Returned \<lparr>id_td = ''abc-123'',
               conversation =
                 (mkPage [mkEntry ''b'' (Some ''2026-01-01T00:00:01.000Z''),
                          mkEntry ''a'' (Some ''2026-01-01T00:00:02.000Z'')] False None)
                 \<lparr>domUrls := Some []\<rparr>,
               domUrls_td = []\<rparr>
   \<and> map (entryTime sampleClock)
        [mkEntry ''b'' (Some ''2026-01-01T00:00:01.000Z''),
         mkEntry ''a'' (Some ''2026-01-01T00:00:02.000Z'')]
      = [Some 1767225601000, Some 1767225602000]
   \<and> sorted_wrt (<) (map (\<lambda>e. the (entryTime sampleClock e))
        [mkEntry ''b'' (Some ''2026-01-01T00:00:01.000Z''),
         mkEntry ''a'' (Some ''2026-01-01T00:00:02.000Z'')])
   \<and> sortBy (compareEntries sampleClock)
        [mkEntry ''b'' (Some ''2026-01-01T00:00:01.000Z''),
         mkEntry ''a'' (Some ''2026-01-01T00:00:02.000Z'')]
      = [mkEntry ''b'' (Some ''2026-01-01T00:00:01.000Z''),
         mkEntry ''a'' (Some ''2026-01-01T00:00:02.000Z'')]"
proof -
  let ?td = "\<lparr>id_td = ''abc-123'',
               conversation =
                 (mkPage [mkEntry ''b'' (Some ''2026-01-01T00:00:01.000Z''),
                          mkEntry ''a'' (Some ''2026-01-01T00:00:02.000Z'')] False None)
                 \<lparr>domUrls := Some []\<rparr>,
               domUrls_td = []\<rparr>"
  have r: "loadThreadFromURL sampleClock
     [\<lparr>httpMethod = ''GET'', url = ''https://www.perplexity.ai/rest/thread/abc-123?limit=10'',
       json = Some (mkPage [mkEntry ''a'' (Some ''2026-01-01T00:00:02.000Z''),
                            mkEntry ''b'' (Some ''2026-01-01T00:00:01.000Z'')] False None)\<rparr>]
     [] [] Map.empty ''https://www.perplexity.ai/search/abc-123'' = Returned ?td"
    by (simp add: loadThreadFromURL_def onResponse_def beforeFirst_def harvest_def mkPage_def
        mkEntry_def truthy_def sortBy_def compareEntries_def entryTime_def sampleClock_def
        Let_def)
  have e: "entries (conversation ?td)
             = [mkEntry ''b'' (Some ''2026-01-01T00:00:01.000Z''),
                mkEntry ''a'' (Some ''2026-01-01T00:00:02.000Z'')]"
    by (simp add: mkPage_def)
  have v: "\<forall>e \<in> set (entries (conversation ?td)). entryTime sampleClock e \<noteq> None"
    by (simp add: mkPage_def mkEntry_def entryTime_def truthy_def sampleClock_def)
  have d: "distinct (map (entryTime sampleClock) (entries (conversation ?td)))"
    by (simp add: mkPage_def mkEntry_def entryTime_def truthy_def sampleClock_def)
  from loadThread_sorted[OF r v] d have
    "sorted_wrt (<) (map (\<lambda>e. the (entryTime sampleClock e)) (entries (conversation ?td)))"
    "sortBy (compareEntries sampleClock) (entries (conversation ?td))
       = entries (conversation ?td)"
    by blast+
  moreover have "map (entryTime sampleClock) (entries (conversation ?td))
      = [Some 1767225601000, Some 1767225602000]"
    by (simp add: mkPage_def mkEntry_def entryTime_def truthy_def sampleClock_def)
  ultimately show ?thesis using r unfolding e by blast
qed

text \<open>
  The claim as stated fails when two entries carry the same timestamp: the returned list is
  in ascending order, but not strictly.
\<close>

theorem loadThread_equal_times_counterexample:
  "map_option (map (entryTime sampleClock) \<circ> entries \<circ> conversation)
     (returned (loadThreadFromURL sampleClock
        [\<lparr>httpMethod = ''GET'', url = ''https://www.perplexity.ai/rest/thread/abc-123?limit=10'',
          json = Some (mkPage [mkEntry ''a'' (Some ''2026-01-01T00:00:02.000Z''),
                               mkEntry ''b'' (Some ''2026-01-01T00:00:01.000Z''),
                               mkEntry ''c'' (Some ''2026-01-01T00:00:01.000Z'')] False None)\<rparr>]
        [] [] Map.empty ''https://www.perplexity.ai/search/abc-123''))
   = Some [Some 1767225601000, Some 1767225601000, Some 1767225602000]"
  by (simp add: loadThreadFromURL_def onResponse_def beforeFirst_def harvest_def mkPage_def
      mkEntry_def truthy_def sortBy_def compareEntries_def entryTime_def sampleClock_def
      returned_def Let_def)

section \<open>Properties of the state store\<close>

lemma migrate_keys:
  "fst ` set (migrateUrls now urls acc) = fst ` set acc \<union> propertyKey ` set urls"
  unfolding migrateUrls_def
proof (induction urls arbitrary: acc)
  case Nil
  then show ?case by simp
next
  case (Cons u urls)
  have "fst ` set (AList.update (propertyKey u) \<lparr>lastUpdated = now, downloadedAt = now\<rparr> acc)
          = insert (propertyKey u) (fst ` set acc)"
    using dom_update[of "propertyKey u" _ acc] by (simp add: dom_map_of_conv_image_fst)
  with Cons.IH show ?case by auto
qed

lemma migrate_distinct:
  "distinct (map fst acc) \<Longrightarrow> distinct (map fst (migrateUrls now urls acc))"
  unfolding migrateUrls_def
  by (induction urls arbitrary: acc) (auto simp: distinct_update)

lemma set_update_subset: "set (AList.update k v al) \<subseteq> insert (k, v) (set al)"
  by (induction al) auto

lemma migrate_values:
  "\<forall>(k, t) \<in> set acc. t = \<lparr>lastUpdated = now, downloadedAt = now\<rparr>
   \<Longrightarrow> \<forall>(k, t) \<in> set (migrateUrls now urls acc). t = \<lparr>lastUpdated = now, downloadedAt = now\<rparr>"
  unfolding migrateUrls_def
proof (induction urls arbitrary: acc)
  case Nil
  then show ?case by simp
next
  case (Cons u urls)
  have "\<forall>(k, t) \<in> set (AList.update (propertyKey u)
                          \<lparr>lastUpdated = now, downloadedAt = now\<rparr> acc).
          t = \<lparr>lastUpdated = now, downloadedAt = now\<rparr>"
    using Cons.prems
      set_update_subset[of "propertyKey u" "\<lparr>lastUpdated = now, downloadedAt = now\<rparr>" acc]
    by auto
  from Cons.IH[OF this] show ?case by simp
qed

lemma migrate_length:
  "length (migrateUrls now urls []) = card (propertyKey ` set urls)"
proof -
  have "distinct (map fst (migrateUrls now urls []))" by (rule migrate_distinct) simp
  from distinct_card[OF this] show ?thesis by (simp add: migrate_keys)
qed

lemma loadDoneFile_legacy:
  assumes "readFile d path = Some content" "parse content = Some raw"
    and "\<forall>ms. getProp raw ''processed'' \<noteq> Some (JObj ms)"
    and "getProp raw ''processedUrls'' = Some (JArr urls)"
  shows "loadDoneFile parse stringify now d path =
     (case writeFile d path (stringify (toJson \<lparr>processed = migrateUrls now urls []\<rparr>)) of
        None \<Rightarrow> (\<lparr>processed = []\<rparr>, d)
      | Some d' \<Rightarrow> (\<lparr>processed = migrateUrls now urls []\<rparr>, d'))"
proof -
  from assms(4) have "raw \<noteq> JNull" by (auto simp: getProp_def)
  with assms show ?thesis
    by (cases raw) (auto simp: loadDoneFile_def Let_def split: option.splits json.splits)
qed

lemma update_fresh: "k \<notin> fst ` set al \<Longrightarrow> AList.update k v al = al @ [(k, v)]"
  by (induction al) auto

lemma foldl_update_distinct:
  "distinct (map fst acc @ map fst al) \<Longrightarrow>
   foldl (\<lambda>acc (k, t). AList.update k (g t) acc) acc al = acc @ map (\<lambda>(k, t). (k, g t)) al"
proof (induction al arbitrary: acc)
  case Nil
  then show ?case by simp
next
  case (Cons p al)
  obtain k t where p: "p = (k, t)" by (cases p)
  from Cons.prems p have fresh: "k \<notin> fst ` set acc" by auto
  from Cons.prems p have "distinct (map fst (acc @ [(k, g t)]) @ map fst al)" by auto
  from Cons.IH[OF this] fresh p show ?case by (simp add: update_fresh)
qed

lemma stringField_written:
  "stringField (JObj [(''lastUpdated'', JStr a), (''downloadedAt'', JStr b)]) ''lastUpdated'' = a"
  "stringField (JObj [(''lastUpdated'', JStr a), (''downloadedAt'', JStr b)]) ''downloadedAt'' = b"
  by (simp_all add: stringField_def getProp_def)

lemma asDoneFile_toJson:
  assumes "distinct (map fst (processed D))"
  shows "asDoneFile (toJson D) = D"
proof -
  let ?enc = "\<lambda>t. JObj [(''lastUpdated'', JStr (lastUpdated t)),
                        (''downloadedAt'', JStr (downloadedAt t))]"
  let ?dec = "\<lambda>v. \<lparr>lastUpdated = stringField v ''lastUpdated'',
                     downloadedAt = stringField v ''downloadedAt''\<rparr>"
  have d: "distinct (map fst [] @ map fst (map (\<lambda>(key, t). (key, ?enc t)) (processed D)))"
    using assms by (simp add: comp_def case_prod_unfold)
  have "foldl (\<lambda>acc (key, v). AList.update key (?dec v) acc) []
          (map (\<lambda>(key, t). (key, ?enc t)) (processed D))
        = [] @ map (\<lambda>(k, v). (k, ?dec v)) (map (\<lambda>(key, t). (key, ?enc t)) (processed D))"
    using foldl_update_distinct[of "[]" "map (\<lambda>(key, t). (key, ?enc t)) (processed D)" ?dec] d
    by simp
  also have "\<dots> = processed D"
  proof -
    have "map (\<lambda>x. (fst x, \<lparr>lastUpdated = lastUpdated (snd x),
                 downloadedAt = downloadedAt (snd x)\<rparr>)) (processed D) = processed D"
      by (intro map_idI) (simp add: prod_eq_iff)
    then show ?thesis
      by (simp add: comp_def case_prod_unfold stringField_written)
  qed
  finally show ?thesis
    by (simp add: asDoneFile_def toJson_def getProp_def)
qed

lemma loadDoneFile_new_format:
  assumes "readFile d path = Some content" "parse content = Some (toJson D)"
    and "distinct (map fst (processed D))"
  shows "loadDoneFile parse stringify now d path = (D, d)"
  using assms asDoneFile_toJson[OF assms(3)]
  by (simp add: loadDoneFile_def toJson_def getProp_def)

text \<open>
  C8 (as the code has it). A state file in the legacy format (no \<open>processed\<close> object, a
  list \<open>processedUrls\<close>) whose rewrite succeeds is migrated to a mapping with one entry per
  different URL of the list: exactly \<open>N\<close> entries when the \<open>N\<close> URLs are pairwise different.
  Every entry has \<open>lastUpdated\<close> and \<open>downloadedAt\<close> equal to the one timestamp taken at the
  migration. When \<open>loadDoneFile\<close> returns, the file holds the migrated state in the new
  format: loading it again gives the same state and leaves the file alone.
\<close>

theorem loadDoneFile_migration:
  assumes "readFile d doneFilePath = Some content"
    and "parse content = Some raw"
    and "\<forall>ms. getProp raw ''processed'' \<noteq> Some (JObj ms)"
    and "getProp raw ''processedUrls'' = Some (JArr urls)"
    and "doneFilePath \<notin> refused d"
  shows "\<exists>migrated d'.
           loadDoneFile parse stringify now d doneFilePath = (migrated, d')
         \<and> fst ` set (processed migrated) = propertyKey ` set urls
         \<and> processedCount migrated = card (propertyKey ` set urls)
         \<and> (distinct (map propertyKey urls) \<longrightarrow> processedCount migrated = length urls)
         \<and> (\<forall>(u, t) \<in> set (processed migrated). lastUpdated t = now \<and> downloadedAt t = now)
         \<and> files d' doneFilePath = Some (stringify (toJson migrated))
         \<and> ((\<forall>j. parse (stringify j) = Some j) \<longrightarrow>
               loadDoneFile parse stringify later d' doneFilePath = (migrated, d'))"
proof -
  let ?m = "\<lparr>processed = migrateUrls now urls []\<rparr>"
  let ?d = "d\<lparr>files := (files d)(doneFilePath \<mapsto> stringify (toJson ?m))\<rparr>"
  have l: "loadDoneFile parse stringify now d doneFilePath = (?m, ?d)"
    using loadDoneFile_legacy[where parse = parse and stringify = stringify and now = now,
        OF assms(1-4)] assms(5)
    by (simp add: writeFile_def)
  have k: "fst ` set (processed ?m) = propertyKey ` set urls"
    by (simp add: migrate_keys)
  have c: "processedCount ?m = card (propertyKey ` set urls)"
    by (simp add: processedCount_def migrate_length)
  have n: "distinct (map propertyKey urls) \<longrightarrow> processedCount ?m = length urls"
  proof
    assume "distinct (map propertyKey urls)"
    from distinct_card[OF this] c show "processedCount ?m = length urls" by simp
  qed
  have v: "\<forall>(u, t) \<in> set (processed ?m). lastUpdated t = now \<and> downloadedAt t = now"
    using migrate_values[of "[]" now urls] by auto
  have f: "files ?d doneFilePath = Some (stringify (toJson ?m))" by simp
  have r: "(\<forall>j. parse (stringify j) = Some j) \<longrightarrow>
             loadDoneFile parse stringify later ?d doneFilePath = (?m, ?d)"
  proof
    assume rt: "\<forall>j. parse (stringify j) = Some j"
    have "readFile ?d doneFilePath = Some (stringify (toJson ?m))"
      by (simp add: readFile_def)
    moreover have "parse (stringify (toJson ?m)) = Some (toJson ?m)" using rt by simp
    moreover have "distinct (map fst (processed ?m))"
      using migrate_distinct[of "[]" now urls] by simp
    ultimately show "loadDoneFile parse stringify later ?d doneFilePath = (?m, ?d)"
      by (rule loadDoneFile_new_format)
  qed
  from l k c n v f r show ?thesis by blast
qed

theorem loadDoneFile_migration_witness:
  "processedCount (fst (loadDoneFile id Some ''2026-01-01T00:00:02.000Z'' legacyDisk
                          ''done.json'')) = 2
   \<and> files (snd (loadDoneFile id Some ''2026-01-01T00:00:02.000Z'' legacyDisk ''done.json''))
        ''done.json''
      = Some (Some (toJson (fst (loadDoneFile id Some ''2026-01-01T00:00:02.000Z'' legacyDisk
                                   ''done.json''))))"
proof -
  let ?raw = "JObj [(''processedUrls'',
                     JArr [JStr ''https://www.perplexity.ai/search/abc-123'',
                           JStr ''https://www.perplexity.ai/search/def-456''])]"
  let ?urls = "[JStr ''https://www.perplexity.ai/search/abc-123'',
                JStr ''https://www.perplexity.ai/search/def-456'']"
  have 1: "readFile legacyDisk ''done.json'' = Some (Some ?raw)"
    by (simp add: readFile_def legacyDisk_def)
  have 2: "id (Some ?raw) = Some ?raw" by simp
  have 3: "\<forall>ms. getProp ?raw ''processed'' \<noteq> Some (JObj ms)" by (simp add: getProp_def)
  have 4: "getProp ?raw ''processedUrls'' = Some (JArr ?urls)" by (simp add: getProp_def)
  have 5: "''done.json'' \<notin> refused legacyDisk" by (simp add: legacyDisk_def)
  from loadDoneFile_migration[where parse = id and stringify = Some
      and now = "''2026-01-01T00:00:02.000Z''", OF 1 2 3 4 5]
  obtain migrated d' where
    l: "loadDoneFile id Some ''2026-01-01T00:00:02.000Z'' legacyDisk ''done.json''
          = (migrated, d')"
    and c: "processedCount migrated = card (propertyKey ` set ?urls)"
    and f: "files d' ''done.json'' = Some (Some (toJson migrated))"
    by blast
  have "card (propertyKey ` set ?urls) = 2" by simp
  with l c f show ?thesis by simp
qed

text \<open>
  The claim as stated fails for a legacy list that names a URL twice: two URLs give one
  entry.
\<close>

theorem loadDoneFile_duplicate_url_counterexample:
  "processedCount (fst (loadDoneFile id Some ''2026-01-01T00:00:02.000Z''
      \<lparr>files = [''done.json'' \<mapsto>
                  Some (JObj [(''processedUrls'',
                               JArr [JStr ''https://www.perplexity.ai/search/abc-123'',
                                     JStr ''https://www.perplexity.ai/search/abc-123''])])],
       refused = {}\<rparr> ''done.json'')) = 1"
  by (simp add: loadDoneFile_def readFile_def writeFile_def getProp_def processedCount_def
      migrateUrls_def Let_def)

section \<open>Properties of change detection\<close>

lemma parse_empty: "parseLibraryTimestamp h getTime now [] = None"
  by (simp add: parseLibraryTimestamp_def)

lemma parse_two_hours_ago:
  "parseLibraryTimestamp h getTime now ''2 hours ago'' = Some (setBack h now 2 3600000)"
  by (simp add: parseLibraryTimestamp_def toLowerCase_def trim_def stripCCL_def
      shortRelMatch_def relMatch_def isDigit_def isSpace_def isWordChar_def toLowerChar_def
      parseInt_def digitValue_def Let_def)

lemma parse_nbsp:
  "parseLibraryTimestamp h getTime now
     [CHR ''2'', CHR 0xA0, CHR ''h'', CHR ''o'', CHR ''u'', CHR ''r'', CHR ''s'', CHR 0xA0,
      CHR ''a'', CHR ''g'', CHR ''o''] = Some (setBack h now 2 3600000)"
  by (simp add: parseLibraryTimestamp_def toLowerCase_def trim_def stripCCL_def
      shortRelMatch_def relMatch_def isDigit_def isSpace_def isWordChar_def toLowerChar_def
      parseInt_def digitValue_def Let_def)

text \<open>
  C3 (as the code has it), for timestamp texts whose characters are all at most U+00FF.
  For a thread that has a stored entry, the thread is due if and only if the library
  timestamp text is not empty, parses to a valid date, and that date is more than 1000 ms
  after the stored \<open>downloadedAt\<close> (the time of the last local fetch, not \<open>lastUpdated\<close>),
  which must itself be a valid date. In particular, on a host without a clock change in
  the last two hours, the text \<open>2 hours ago\<close>, written with spaces or with no-break spaces,
  parses to two hours before now, so a thread downloaded three hours ago is due and one
  downloaded one hour ago is not.
\<close>

theorem shouldReDownload_compares_downloadedAt:
  assumes "map_of (processed state) u = Some stored"
  shows "shouldReDownload h getTime now state u (Some text)
            = (text \<noteq> []
               \<and> (\<exists>lib downloaded.
                    parseLibraryTimestamp h getTime now text = Some (Some lib)
                    \<and> getTime (downloadedAt stored) = Some downloaded
                    \<and> downloaded + 1000 < lib))
      \<and> (toUTC h (toLocal h now - 7200000) = now - 7200000
          \<and> \<bar>now - 7200000\<bar> \<le> 8640000000000000
          \<and> getTime (downloadedAt stored) = Some downloaded \<longrightarrow>
          shouldReDownload h getTime now state u (Some ''2 hours ago'')
            = (downloaded + 1000 < now - 7200000)
          \<and> shouldReDownload h getTime now state u
               (Some [CHR ''2'', CHR 0xA0, CHR ''h'', CHR ''o'', CHR ''u'', CHR ''r'', CHR ''s'',
                      CHR 0xA0, CHR ''a'', CHR ''g'', CHR ''o''])
            = (downloaded + 1000 < now - 7200000))"
proof (intro conjI impI)
  from assms show "shouldReDownload h getTime now state u (Some text)
            = (text \<noteq> []
               \<and> (\<exists>lib downloaded.
                    parseLibraryTimestamp h getTime now text = Some (Some lib)
                    \<and> getTime (downloadedAt stored) = Some downloaded
                    \<and> downloaded + 1000 < lib))"
    by (auto simp: shouldReDownload_def isProcessed_def truthy_def split: option.splits)
next
  assume a: "toUTC h (toLocal h now - 7200000) = now - 7200000
          \<and> \<bar>now - 7200000\<bar> \<le> 8640000000000000
          \<and> getTime (downloadedAt stored) = Some downloaded"
  then have s: "setBack h now 2 3600000 = Some (now - 7200000)"
    by (simp add: setBack_def timeClip_def)
  with a assms show "shouldReDownload h getTime now state u (Some ''2 hours ago'')
            = (downloaded + 1000 < now - 7200000)"
    by (simp add: shouldReDownload_def isProcessed_def truthy_def parse_two_hours_ago)
  from s a assms show "shouldReDownload h getTime now state u
               (Some [CHR ''2'', CHR 0xA0, CHR ''h'', CHR ''o'', CHR ''u'', CHR ''r'', CHR ''s'',
                      CHR 0xA0, CHR ''a'', CHR ''g'', CHR ''o''])
            = (downloaded + 1000 < now - 7200000)"
    by (simp add: shouldReDownload_def isProcessed_def truthy_def parse_nbsp)
qed

text \<open>
  At 04:00 UTC on 1 January 2026, for a thread downloaded at 01:00 and for one downloaded at
  03:00.
\<close>

theorem shouldReDownload_compares_downloadedAt_witness:
  "parseLibraryTimestamp utcHost sampleClock 1767240000000 ''2 hours ago''
     = Some (Some 1767232800000)
   \<and> shouldReDownload utcHost sampleClock 1767240000000
       (storedAt ''2026-01-01T00:00:02.000Z'' ''2026-01-01T01:00:00.000Z'')
       ''https://www.perplexity.ai/search/abc-123'' (Some ''2 hours ago'')
   \<and> \<not> shouldReDownload utcHost sampleClock 1767240000000
       (storedAt ''2026-01-01T00:00:02.000Z'' ''2026-01-01T03:00:00.000Z'')
       ''https://www.perplexity.ai/search/abc-123'' (Some ''2 hours ago'')
   \<and> \<not> shouldReDownload utcHost sampleClock 1767240000000
       (storedAt ''2026-01-01T00:00:02.000Z'' ''2026-01-01T03:00:00.000Z'')
       ''https://www.perplexity.ai/search/abc-123''
       (Some [CHR ''2'', CHR 0xA0, CHR ''h'', CHR ''o'', CHR ''u'', CHR ''r'', CHR ''s'',
              CHR 0xA0, CHR ''a'', CHR ''g'', CHR ''o''])"
proof -
  let ?u = "''https://www.perplexity.ai/search/abc-123''"
  let ?A = "storedAt ''2026-01-01T00:00:02.000Z'' ''2026-01-01T01:00:00.000Z''"
  let ?B = "storedAt ''2026-01-01T00:00:02.000Z'' ''2026-01-01T03:00:00.000Z''"
  let ?rA = "\<lparr>lastUpdated = ''2026-01-01T00:00:02.000Z'',
              downloadedAt = ''2026-01-01T01:00:00.000Z''\<rparr>"
  let ?rB = "\<lparr>lastUpdated = ''2026-01-01T00:00:02.000Z'',
              downloadedAt = ''2026-01-01T03:00:00.000Z''\<rparr>"
  have a: "map_of (processed ?A) ?u = Some ?rA" by (simp add: storedAt_def)
  have b: "map_of (processed ?B) ?u = Some ?rB" by (simp add: storedAt_def)
  have p: "parseLibraryTimestamp utcHost sampleClock 1767240000000 ''2 hours ago''
             = Some (Some 1767232800000)"
    by (simp add: parse_two_hours_ago setBack_def timeClip_def utcHost_def)
  have z: "toUTC utcHost (toLocal utcHost 1767240000000 - 7200000) = 1767240000000 - 7200000"
    by (simp add: utcHost_def)
  have ga: "sampleClock (downloadedAt ?rA) = Some 1767229200000"
    by (simp add: sampleClock_def)
  have gb: "sampleClock (downloadedAt ?rB) = Some 1767236400000"
    by (simp add: sampleClock_def)
  from shouldReDownload_compares_downloadedAt
         [OF a, of utcHost sampleClock 1767240000000 "''2 hours ago''"]
       p ga
  have "shouldReDownload utcHost sampleClock 1767240000000 ?A ?u (Some ''2 hours ago'')"
    by simp
  moreover from shouldReDownload_compares_downloadedAt
         [OF b, where h = utcHost and getTime = sampleClock and now = 1767240000000
            and downloaded = 1767236400000, THEN conjunct2] z gb
  have "\<not> shouldReDownload utcHost sampleClock 1767240000000 ?B ?u (Some ''2 hours ago'')
        \<and> \<not> shouldReDownload utcHost sampleClock 1767240000000 ?B ?u
            (Some [CHR ''2'', CHR 0xA0, CHR ''h'', CHR ''o'', CHR ''u'', CHR ''r'', CHR ''s'',
                   CHR 0xA0, CHR ''a'', CHR ''g'', CHR ''o''])"
    by simp
  ultimately show ?thesis using p by blast
qed

text \<open>
  The claim as stated fails when the stored \<open>lastUpdated\<close> and \<open>downloadedAt\<close> differ: a
  thread last modified at 01:00 (three hours ago) and downloaded at 03:00 is not due for
  the text \<open>2 hours ago\<close>, although the parsed time 02:00 is more than a second after the
  stored \<open>lastUpdated\<close>.
\<close>

theorem shouldReDownload_lastUpdated_counterexample:
  "\<not> shouldReDownload utcHost sampleClock 1767240000000
       (storedAt ''2026-01-01T01:00:00.000Z'' ''2026-01-01T03:00:00.000Z'')
       ''https://www.perplexity.ai/search/abc-123'' (Some ''2 hours ago'')
   \<and> parseLibraryTimestamp utcHost sampleClock 1767240000000 ''2 hours ago''
       = Some (Some 1767232800000)
   \<and> sampleClock ''2026-01-01T01:00:00.000Z'' = Some 1767229200000
   \<and> (1767229200000::int) + 1000 < 1767232800000"
  by (simp add: shouldReDownload_def isProcessed_def truthy_def parse_two_hours_ago
      setBack_def timeClip_def utcHost_def storedAt_def sampleClock_def)

section \<open>Properties of the download synchronizer\<close>

text \<open>
  A call made while \<open>downloadPromise\<close> holds a promise creates no second download promise:
  the manager is unchanged and the only new promise is the call's own result promise,
  which follows the one in flight.
\<close>

lemma waitForDownload_follows:
  "downloadPromise m = Some p
   \<Longrightarrow> waitForDownload (m, ps) hasTrigger = ((m, ps @ [Pending]), Follower (length ps) p)"
  by (simp add: waitForDownload_def)

lemma settle_length: "length (settle ps p v) = length ps"
  by (simp add: settle_def)

lemma settle_other: "q \<noteq> p \<Longrightarrow> settle ps p v ! q = ps ! q"
  by (simp add: settle_def)

lemma settle_settled: "ps ! q \<noteq> Pending \<Longrightarrow> settle ps p v ! q = ps ! q"
  by (cases "p = q") (auto simp: settle_def)

lemma settle_pending: "p < length ps \<Longrightarrow> ps ! p = Pending \<Longrightarrow> settle ps p v ! p = v"
  by (simp add: settle_def)

lemma progress_length: "length (snd (downloadProgress (m, ps) st err)) = length ps"
  by (auto simp: downloadProgress_def Let_def settle_length split: option.splits)

lemma progress_settled:
  "ps ! q \<noteq> Pending \<Longrightarrow> snd (downloadProgress (m, ps) st err) ! q = ps ! q"
  by (auto simp: downloadProgress_def Let_def settle_settled split: option.splits)

lemma progress_other:
  "downloadResolve m \<noteq> Some q \<Longrightarrow> downloadReject m \<noteq> Some q
   \<Longrightarrow> snd (downloadProgress (m, ps) st err) ! q = ps ! q"
  by (auto simp: downloadProgress_def Let_def settle_other split: option.splits)

lemma progress_resolve:
  "downloadResolve (fst (downloadProgress (m, ps) st err)) = None
   \<or> downloadResolve (fst (downloadProgress (m, ps) st err)) = downloadResolve m"
  by (auto simp: downloadProgress_def Let_def split: option.splits)

lemma progress_reject:
  "downloadReject (fst (downloadProgress (m, ps) st err)) = None
   \<or> downloadReject (fst (downloadProgress (m, ps) st err)) = downloadReject m"
  by (auto simp: downloadProgress_def Let_def split: option.splits)

text \<open>What each event does to the promises, the stored functions and the calls.\<close>

lemma call_keeps:
  assumes "q < length (promises s)"
  shows "promises (step s (Call who hasTrigger)) ! q = promises s ! q"
  using assms
  by (auto simp: step_def waitForDownload_def Let_def nth_append split: option.splits)

lemma call_length:
  "length (promises s) \<le> length (promises (step s (Call who hasTrigger)))"
  by (auto simp: step_def waitForDownload_def Let_def split: option.splits)

lemma call_resolve:
  "downloadResolve (mgr (step s (Call who hasTrigger))) = downloadResolve (mgr s)
   \<or> downloadResolve (mgr (step s (Call who hasTrigger))) = Some (length (promises s) + 1)"
  by (auto simp: step_def waitForDownload_def Let_def split: option.splits)

lemma call_reject:
  "downloadReject (mgr (step s (Call who hasTrigger))) = downloadReject (mgr s)
   \<or> downloadReject (mgr (step s (Call who hasTrigger))) = Some (length (promises s) + 1)"
  by (auto simp: step_def waitForDownload_def Let_def split: option.splits)

lemma call_calls:
  "calls (step s (Call who hasTrigger)) other = calls s other
   \<or> (other = who \<and> calls s who = NotCalled
       \<and> resultOf (calls (step s (Call who hasTrigger)) other) = Some (length (promises s)))"
  by (auto simp: step_def waitForDownload_def Let_def resultOf_def split: option.splits)

lemma trigger_keeps:
  assumes "resultOf (calls s who) \<noteq> Some q"
  shows "promises (step s (TriggerDone who thrown)) ! q = promises s ! q"
  using assms
  by (auto simp: step_def afterTrigger_def Let_def resultOf_def settle_other
      split: option.splits call.splits)

lemma trigger_length:
  "length (promises (step s (TriggerDone who thrown))) = length (promises s)"
  by (auto simp: step_def afterTrigger_def Let_def settle_length
      split: option.splits call.splits)

lemma trigger_fields:
  "downloadResolve (mgr (step s (TriggerDone who thrown))) = downloadResolve (mgr s)
   \<and> downloadReject (mgr (step s (TriggerDone who thrown))) = downloadReject (mgr s)"
  by (auto simp: step_def afterTrigger_def Let_def split: option.splits call.splits)

lemma trigger_calls:
  "other \<noteq> who \<Longrightarrow> calls (step s (TriggerDone who thrown)) other = calls s other"
  by (auto simp: step_def afterTrigger_def Let_def split: option.splits call.splits)

lemma trigger_result:
  "resultOf (calls (step s (TriggerDone who thrown)) other) = resultOf (calls s other)"
  by (auto simp: step_def afterTrigger_def Let_def resultOf_def
      split: option.splits call.splits)

lemma trigger_waiting:
  "calls s who = OwnerWait r awaited \<or> calls s who = Follower r p \<or> calls s who = Done r
   \<Longrightarrow> step s (TriggerDone who thrown) = s"
  by (auto simp: step_def afterTrigger_def Let_def fun_upd_idem)

lemma wake_keeps:
  assumes "resultOf (calls s who) \<noteq> Some q"
  shows "promises (step s (Wake who)) ! q = promises s ! q"
  using assms
  by (auto simp: step_def afterSettled_def Let_def resultOf_def settle_other
      split: option.splits call.splits)

lemma wake_length:
  "length (promises (step s (Wake who))) = length (promises s)"
  by (auto simp: step_def afterSettled_def Let_def settle_length
      split: option.splits call.splits)

lemma wake_fields:
  "downloadResolve (mgr (step s (Wake who))) = downloadResolve (mgr s)
   \<and> downloadReject (mgr (step s (Wake who))) = downloadReject (mgr s)"
  by (auto simp: step_def afterSettled_def Let_def split: option.splits call.splits)

lemma wake_calls:
  "other \<noteq> who \<Longrightarrow> calls (step s (Wake who)) other = calls s other"
  by (auto simp: step_def afterSettled_def Let_def split: option.splits call.splits)

lemma wake_result:
  "resultOf (calls (step s (Wake who)) other) = resultOf (calls s other)"
  by (auto simp: step_def afterSettled_def Let_def resultOf_def
      split: option.splits call.splits)

lemma wake_done: "calls s who = Done r \<Longrightarrow> step s (Wake who) = s"
  by (auto simp: step_def afterSettled_def Let_def fun_upd_idem)

lemma wake_pending:
  "calls s who = OwnerWait r (Some p) \<or> calls s who = Follower r p
   \<Longrightarrow> p < length (promises s) \<Longrightarrow> promises s ! p = Pending
   \<Longrightarrow> step s (Wake who) = s"
  by (auto simp: step_def afterSettled_def Let_def fun_upd_idem)

lemma wake_owner:
  "calls s who = OwnerWait r (Some p) \<Longrightarrow> p < length (promises s)
   \<Longrightarrow> promises s ! p \<noteq> Pending
   \<Longrightarrow> calls (step s (Wake who)) who = Done r
       \<and> promises (step s (Wake who)) = settle (promises s) r (promises s ! p)"
  by (auto simp: step_def afterSettled_def Let_def)

lemma wake_follower:
  "calls s who = Follower r p \<Longrightarrow> p < length (promises s)
   \<Longrightarrow> promises s ! p \<noteq> Pending
   \<Longrightarrow> calls (step s (Wake who)) who = Done r
       \<and> promises (step s (Wake who)) = settle (promises s) r (promises s ! p)"
  by (auto simp: step_def afterSettled_def Let_def)

lemma begin_keeps:
  "promises (step s (Begin name)) = promises s \<and> calls (step s (Begin name)) = calls s
   \<and> downloadResolve (mgr (step s (Begin name))) = downloadResolve (mgr s)
   \<and> downloadReject (mgr (step s (Begin name))) = downloadReject (mgr s)"
  by (simp add: step_def downloadWillBegin_def)

lemma progress_step:
  "promises (step s (Progress st err)) = snd (downloadProgress (mgr s, promises s) st err)
   \<and> mgr (step s (Progress st err)) = fst (downloadProgress (mgr s, promises s) st err)
   \<and> calls (step s (Progress st err)) = calls s"
  by (simp add: step_def Let_def)

lemma step_settled:
  assumes "q < length (promises s)" and "promises s ! q \<noteq> Pending"
  shows "promises (step s e) ! q = promises s ! q"
proof (cases e)
  case (Call who hasTrigger)
  with assms(1) show ?thesis by (simp add: call_keeps)
next
  case (TriggerDone who thrown)
  with assms show ?thesis
    by (auto simp: step_def afterTrigger_def Let_def settle_settled
        split: option.splits call.splits)
next
  case (Wake who)
  with assms show ?thesis
    by (auto simp: step_def afterSettled_def Let_def settle_settled
        split: option.splits call.splits)
next
  case (Begin name)
  then show ?thesis by (simp add: begin_keeps)
next
  case (Progress st err)
  with assms show ?thesis by (simp add: progress_step progress_settled)
qed

lemma step_length: "length (promises s) \<le> length (promises (step s e))"
  by (cases e)
     (simp_all add: call_length trigger_length wake_length begin_keeps progress_step
        progress_length)

text \<open>
  Once the second caller's result promise follows a promise that nothing can settle, it
  stays pending whatever happens next.
\<close>

lemma stranded_step:
  assumes i: "stranded p b s"
  shows "stranded p b (step s e)"
proof -
  from i have lt: "p < length (promises s)" "b < length (promises s)"
    and pend: "promises s ! p = Pending" "promises s ! b = Pending"
    and res: "downloadResolve (mgr s) \<noteq> Some p" "downloadResolve (mgr s) \<noteq> Some b"
    and rej: "downloadReject (mgr s) \<noteq> Some p" "downloadReject (mgr s) \<noteq> Some b"
    and ra: "resultOf (calls s CallerA) \<noteq> Some p" "resultOf (calls s CallerA) \<noteq> Some b"
    and rc: "resultOf (calls s CallerC) \<noteq> Some p" "resultOf (calls s CallerC) \<noteq> Some b"
    and cb: "calls s CallerB = Follower b p"
    by (auto simp: stranded_def)
  show ?thesis
  proof (cases e)
    case (Call who hasTrigger)
    have 1: "calls (step s (Call who hasTrigger)) CallerB = Follower b p"
      using call_calls[of s who hasTrigger CallerB] cb by auto
    have 2: "resultOf (calls (step s (Call who hasTrigger)) CallerA) \<noteq> Some p"
            "resultOf (calls (step s (Call who hasTrigger)) CallerA) \<noteq> Some b"
      using call_calls[of s who hasTrigger CallerA] ra lt by auto
    have 3: "resultOf (calls (step s (Call who hasTrigger)) CallerC) \<noteq> Some p"
            "resultOf (calls (step s (Call who hasTrigger)) CallerC) \<noteq> Some b"
      using call_calls[of s who hasTrigger CallerC] rc lt by auto
    have 4: "downloadResolve (mgr (step s (Call who hasTrigger))) \<noteq> Some p"
            "downloadResolve (mgr (step s (Call who hasTrigger))) \<noteq> Some b"
      using call_resolve[of s who hasTrigger] res lt by auto
    have 5: "downloadReject (mgr (step s (Call who hasTrigger))) \<noteq> Some p"
            "downloadReject (mgr (step s (Call who hasTrigger))) \<noteq> Some b"
      using call_reject[of s who hasTrigger] rej lt by auto
    have 6: "p < length (promises (step s (Call who hasTrigger)))"
            "b < length (promises (step s (Call who hasTrigger)))"
      using call_length[of s who hasTrigger] lt by auto
    from 1 2 3 4 5 6 pend lt show ?thesis
      unfolding Call stranded_def by (simp add: call_keeps)
  next
    case (TriggerDone who thrown)
    show ?thesis
    proof (cases "who = CallerB")
      case True
      with cb have "step s (TriggerDone who thrown) = s" by (simp add: trigger_waiting)
      with i TriggerDone show ?thesis by simp
    next
      case False
      then have w: "resultOf (calls s who) \<noteq> Some p" "resultOf (calls s who) \<noteq> Some b"
        using ra rc by (cases who; simp)+
      from False have "calls (step s (TriggerDone who thrown)) CallerB = Follower b p"
        using cb by (simp add: trigger_calls)
      with w lt pend res rej ra rc show ?thesis
        unfolding TriggerDone stranded_def
        by (simp add: trigger_keeps trigger_length trigger_fields trigger_result)
    qed
  next
    case (Wake who)
    show ?thesis
    proof (cases "who = CallerB")
      case True
      with cb lt pend have "step s (Wake who) = s" by (simp add: wake_pending)
      with i Wake show ?thesis by simp
    next
      case False
      then have w: "resultOf (calls s who) \<noteq> Some p" "resultOf (calls s who) \<noteq> Some b"
        using ra rc by (cases who; simp)+
      from False have "calls (step s (Wake who)) CallerB = Follower b p"
        using cb by (simp add: wake_calls)
      with w lt pend res rej ra rc show ?thesis
        unfolding Wake stranded_def
        by (simp add: wake_keeps wake_length wake_fields wake_result)
    qed
  next
    case (Begin name)
    with i show ?thesis by (simp add: stranded_def begin_keeps)
  next
    case (Progress st err)
    have 4: "downloadResolve (mgr (step s (Progress st err))) \<noteq> Some p"
            "downloadResolve (mgr (step s (Progress st err))) \<noteq> Some b"
      using progress_resolve[of "mgr s" "promises s" st err] res
      by (auto simp: progress_step)
    have 5: "downloadReject (mgr (step s (Progress st err))) \<noteq> Some p"
            "downloadReject (mgr (step s (Progress st err))) \<noteq> Some b"
      using progress_reject[of "mgr s" "promises s" st err] rej
      by (auto simp: progress_step)
    from 4 5 lt pend res rej ra rc cb show ?thesis
      unfolding Progress stranded_def
      by (simp add: progress_step progress_length progress_other)
  qed
qed

lemma stranded_history: "stranded p b s \<Longrightarrow> stranded p b (history s es)"
  unfolding history_def by (induction es arbitrary: s) (auto simp: stranded_step)

lemma stranded_observes_nothing: "stranded p b s \<Longrightarrow> observedBy s CallerB = None"
  by (simp add: stranded_def observedBy_def resultOf_def settledWith_def)

text \<open>A call that is done keeps what it has delivered.\<close>

lemma finished_step:
  assumes i: "finished who r oc s"
  shows "finished who r oc (step s e)"
proof -
  from i have d: "calls s who = Done r" and lt: "r < length (promises s)"
    and st: "settledWith (promises s ! r) = Some oc"
    by (auto simp: finished_def)
  from st have np: "promises s ! r \<noteq> Pending" by (auto simp: settledWith_def)
  from lt step_length[of s e] have lt': "r < length (promises (step s e))" by simp
  from lt np have keep: "promises (step s e) ! r = promises s ! r" by (rule step_settled)
  have "calls (step s e) who = Done r"
  proof (cases e)
    case (Call w hasTrigger)
    with d call_calls[of s w hasTrigger who] show ?thesis by auto
  next
    case (TriggerDone w thrown)
    show ?thesis
    proof (cases "w = who")
      case True
      with d TriggerDone show ?thesis by (simp add: trigger_waiting)
    next
      case False
      with d TriggerDone show ?thesis by (simp add: trigger_calls)
    qed
  next
    case (Wake w)
    show ?thesis
    proof (cases "w = who")
      case True
      with d Wake show ?thesis by (simp add: wake_done)
    next
      case False
      with d Wake show ?thesis by (simp add: wake_calls)
    qed
  next
    case (Begin name)
    with d show ?thesis by (simp add: begin_keeps)
  next
    case (Progress st err)
    with d show ?thesis by (simp add: progress_step)
  qed
  with lt' keep st show ?thesis by (simp add: finished_def)
qed

lemma finished_history: "finished who r oc s \<Longrightarrow> finished who r oc (history s es)"
  unfolding history_def by (induction es arbitrary: s) (auto simp: finished_step)

lemma finished_observes: "finished who r oc s \<Longrightarrow> observedBy s who = Some oc"
  by (simp add: finished_def observedBy_def resultOf_def)

lemma history_append: "history s (es @ fs) = history (history s es) fs"
  by (simp add: history_def)

text \<open>
  The two callers of one download, when the first call's trigger has not thrown: their
  result promises are settled as the download promise is, so they observe the same value
  or the same error.
\<close>

lemma sharing_preserved:
  assumes "sharing p a b s"
    and "length (promises s) \<le> length (promises s')"
    and "promises s' ! a = promises s ! a" and "promises s' ! b = promises s ! b"
    and "promises s ! p \<noteq> Pending \<Longrightarrow> promises s' ! p = promises s ! p"
    and "calls s' CallerA = calls s CallerA" and "calls s' CallerB = calls s CallerB"
    and "resultOf (calls s' CallerC) \<noteq> Some a" and "resultOf (calls s' CallerC) \<noteq> Some b"
    and "downloadResolve (mgr s') \<noteq> Some a" and "downloadResolve (mgr s') \<noteq> Some b"
    and "downloadReject (mgr s') \<noteq> Some a" and "downloadReject (mgr s') \<noteq> Some b"
  shows "sharing p a b s'"
  using assms unfolding sharing_def by auto

lemma sharing_step:
  assumes i: "sharing p a b s"
  shows "sharing p a b (step s e)"
proof -
  from i have lt: "p < length (promises s)" "a < length (promises s)"
      "b < length (promises s)"
    and ne: "a \<noteq> b" "a \<noteq> p" "b \<noteq> p"
    and res: "downloadResolve (mgr s) \<noteq> Some a" "downloadResolve (mgr s) \<noteq> Some b"
    and rej: "downloadReject (mgr s) \<noteq> Some a" "downloadReject (mgr s) \<noteq> Some b"
    and rc: "resultOf (calls s CallerC) \<noteq> Some a" "resultOf (calls s CallerC) \<noteq> Some b"
    and ca: "calls s CallerA = OwnerWait a (Some p) \<and> promises s ! a = Pending
           \<or> calls s CallerA = Done a \<and> promises s ! a = promises s ! p
              \<and> promises s ! p \<noteq> Pending"
    and cb: "calls s CallerB = Follower b p \<and> promises s ! b = Pending
           \<or> calls s CallerB = Done b \<and> promises s ! b = promises s ! p
              \<and> promises s ! p \<noteq> Pending"
    by (auto simp: sharing_def)
  from ca have ra: "resultOf (calls s CallerA) = Some a" by (auto simp: resultOf_def)
  from cb have rb: "resultOf (calls s CallerB) = Some b" by (auto simp: resultOf_def)
  from ca have na: "calls s CallerA \<noteq> NotCalled" by auto
  from cb have nb: "calls s CallerB \<noteq> NotCalled" by auto
  have settled: "promises s ! p \<noteq> Pending \<Longrightarrow> promises (step s e) ! p = promises s ! p"
    using lt(1) by (rule step_settled)
  show ?thesis
  proof (cases e)
    case (Call who hasTrigger)
    have 1: "calls (step s (Call who hasTrigger)) CallerA = calls s CallerA"
      using call_calls[of s who hasTrigger CallerA] na by auto
    have 2: "calls (step s (Call who hasTrigger)) CallerB = calls s CallerB"
      using call_calls[of s who hasTrigger CallerB] nb by auto
    have 3: "resultOf (calls (step s (Call who hasTrigger)) CallerC) \<noteq> Some a"
            "resultOf (calls (step s (Call who hasTrigger)) CallerC) \<noteq> Some b"
      using call_calls[of s who hasTrigger CallerC] rc lt by auto
    have 4: "downloadResolve (mgr (step s (Call who hasTrigger))) \<noteq> Some a"
            "downloadResolve (mgr (step s (Call who hasTrigger))) \<noteq> Some b"
      using call_resolve[of s who hasTrigger] res lt by auto
    have 5: "downloadReject (mgr (step s (Call who hasTrigger))) \<noteq> Some a"
            "downloadReject (mgr (step s (Call who hasTrigger))) \<noteq> Some b"
      using call_reject[of s who hasTrigger] rej lt by auto
    show ?thesis
      unfolding Call
      by (rule sharing_preserved[OF i call_length _ _ _ 1 2 3 4 5])
         (simp_all add: call_keeps lt)
  next
    case (TriggerDone who thrown)
    show ?thesis
    proof (cases who)
      case CallerA
      with ca have "step s (TriggerDone who thrown) = s" by (auto simp: trigger_waiting)
      with i TriggerDone show ?thesis by simp
    next
      case CallerB
      with cb have "step s (TriggerDone who thrown) = s" by (auto simp: trigger_waiting)
      with i TriggerDone show ?thesis by simp
    next
      case CallerC
      show ?thesis
        unfolding TriggerDone
      proof (rule sharing_preserved[OF i])
        show "promises s ! p \<noteq> Pending
              \<Longrightarrow> promises (step s (TriggerDone who thrown)) ! p = promises s ! p"
          using settled TriggerDone by simp
      qed (use CallerC rc res rej in
            \<open>simp_all add: trigger_length trigger_keeps trigger_calls trigger_result
               trigger_fields\<close>)
    qed
  next
    case (Wake who)
    show ?thesis
    proof (cases who)
      case CallerC
      show ?thesis
        unfolding Wake
      proof (rule sharing_preserved[OF i])
        show "promises s ! p \<noteq> Pending
              \<Longrightarrow> promises (step s (Wake who)) ! p = promises s ! p"
          using settled Wake by simp
      qed (use CallerC rc res rej in
            \<open>simp_all add: wake_length wake_keeps wake_calls wake_result wake_fields\<close>)
    next
      case CallerA
      show ?thesis
      proof (cases "calls s CallerA = OwnerWait a (Some p) \<and> promises s ! p \<noteq> Pending")
        case False
        with ca lt have "step s (Wake CallerA) = s"
          by (auto simp: wake_done wake_pending)
        with i Wake CallerA show ?thesis by simp
      next
        case True
        with ca have pa: "promises s ! a = Pending" by auto
        from True lt wake_owner[of s CallerA a p]
        have d: "calls (step s (Wake CallerA)) CallerA = Done a"
          and ps: "promises (step s (Wake CallerA)) = settle (promises s) a (promises s ! p)"
          by auto
        from ps pa lt ne have
          "promises (step s (Wake CallerA)) ! a = promises s ! p"
          "promises (step s (Wake CallerA)) ! p = promises s ! p"
          "promises (step s (Wake CallerA)) ! b = promises s ! b"
          by (simp_all add: settle_pending settle_other)
        with d True cb lt ne rc res rej show ?thesis
          unfolding Wake CallerA sharing_def
          by (simp add: wake_length wake_calls wake_result wake_fields)
      qed
    next
      case CallerB
      show ?thesis
      proof (cases "calls s CallerB = Follower b p \<and> promises s ! p \<noteq> Pending")
        case False
        with cb lt have "step s (Wake CallerB) = s"
          by (auto simp: wake_done wake_pending)
        with i Wake CallerB show ?thesis by simp
      next
        case True
        with cb have pb: "promises s ! b = Pending" by auto
        from True lt wake_follower[of s CallerB b p]
        have d: "calls (step s (Wake CallerB)) CallerB = Done b"
          and ps: "promises (step s (Wake CallerB)) = settle (promises s) b (promises s ! p)"
          by auto
        from ps pb lt ne have
          "promises (step s (Wake CallerB)) ! b = promises s ! p"
          "promises (step s (Wake CallerB)) ! p = promises s ! p"
          "promises (step s (Wake CallerB)) ! a = promises s ! a"
          by (simp_all add: settle_pending settle_other)
        with d True ca lt ne rc res rej show ?thesis
          unfolding Wake CallerB sharing_def
          by (simp add: wake_length wake_calls wake_result wake_fields)
      qed
    qed
  next
    case (Begin name)
    with i show ?thesis by (simp add: sharing_def begin_keeps)
  next
    case (Progress st err)
    have 4: "downloadResolve (mgr (step s (Progress st err))) \<noteq> Some a"
            "downloadResolve (mgr (step s (Progress st err))) \<noteq> Some b"
      using progress_resolve[of "mgr s" "promises s" st err] res
      by (auto simp: progress_step)
    have 5: "downloadReject (mgr (step s (Progress st err))) \<noteq> Some a"
            "downloadReject (mgr (step s (Progress st err))) \<noteq> Some b"
      using progress_reject[of "mgr s" "promises s" st err] rej
      by (auto simp: progress_step)
    show ?thesis
      unfolding Progress
    proof (rule sharing_preserved[OF i _ _ _ _ _ _ _ _ 4 5])
      show "promises s ! p \<noteq> Pending
            \<Longrightarrow> promises (step s (Progress st err)) ! p = promises s ! p"
        using settled Progress by simp
    qed (use rc res rej in \<open>simp_all add: progress_step progress_length progress_other\<close>)
  qed
qed

lemma sharing_history: "sharing p a b s \<Longrightarrow> sharing p a b (history s es)"
  unfolding history_def by (induction es arbitrary: s) (auto simp: sharing_step)

lemma shared_settlement:
  assumes "sharing p a b s"
    and "observedBy (history s es) CallerA = Some oa"
    and "observedBy (history s es) CallerB = Some ob"
  shows "oa = ob \<and> settledWith (promises (history s es) ! p) = Some oa"
proof -
  from assms(1) have i: "sharing p a b (history s es)" by (rule sharing_history)
  from i assms(2) have a: "promises (history s es) ! a = promises (history s es) ! p"
    and oa: "settledWith (promises (history s es) ! a) = Some oa"
    by (auto simp: sharing_def observedBy_def resultOf_def settledWith_def
        split: if_splits)
  from i assms(3) have b: "promises (history s es) ! b = promises (history s es) ! p"
    and ob: "settledWith (promises (history s es) ! b) = Some ob"
    by (auto simp: sharing_def observedBy_def resultOf_def settledWith_def
        split: if_splits)
  from a b oa ob show ?thesis by simp
qed

lemma sharing_established:
  "sharing 1 0 2
     (history idleSession [Call CallerA True, Call CallerB False, TriggerDone CallerA None])"
  by (simp add: sharing_def history_def step_def idleSession_def waitForDownload_def
      afterTrigger_def resultOf_def Let_def)

lemmas session_defs =
  history_def step_def idleSession_def waitForDownload_def afterTrigger_def afterSettled_def
  downloadWillBegin_def downloadProgress_def settle_def pathJoin_def truthy_def Let_def
  observedBy_def resultOf_def settledWith_def includes_str_def

text \<open>
  C6 at the failing input. Caller A calls \<open>waitForDownload\<close> with a trigger, caller B calls
  it while A's download promise is outstanding, and A's trigger throws. The \<open>catch\<close> clears
  \<open>downloadPromise\<close> but neither rejects the promise nor clears the two stored functions.
  So the two callers do not observe the same outcome: A gets the trigger's error, and B's
  promise stays pending. If a third call comes before the next download, it replaces the
  stored functions and B never gets an answer, whatever happens afterwards, while the
  third caller gets the file; without a third call, B gets the file of whichever download
  completes next. On the sibling error path, a download that is canceled after the
  trigger has completed, both callers get the same error.
\<close>

theorem trigger_error_strands_second_caller:
  "observedBy (history idleSession
      ([Call CallerA True, Call CallerB False,
        TriggerDone CallerA (Some ''Node is detached from document''),
        Call CallerC False] @ es)) CallerA
     = Some (Thrown (TriggerError ''Node is detached from document''))
   \<and> observedBy (history idleSession
      ([Call CallerA True, Call CallerB False,
        TriggerDone CallerA (Some ''Node is detached from document''),
        Call CallerC False] @ es)) CallerB
     = None
   \<and> observedBy (history idleSession
      [Call CallerA True, Call CallerB False,
       TriggerDone CallerA (Some ''Node is detached from document''),
       Call CallerC False,
       Begin ''thread.md'', Progress Completed None, Wake CallerC, Wake CallerB]) CallerC
     = Some (Resolved (Some ''downloads/thread.md''))
   \<and> downloadPromise (mgr (history idleSession
      [Call CallerA True, Call CallerB False,
       TriggerDone CallerA (Some ''Node is detached from document'')])) = None
   \<and> downloadResolve (mgr (history idleSession
      [Call CallerA True, Call CallerB False,
       TriggerDone CallerA (Some ''Node is detached from document'')])) = Some 1
   \<and> downloadReject (mgr (history idleSession
      [Call CallerA True, Call CallerB False,
       TriggerDone CallerA (Some ''Node is detached from document'')])) = Some 1
   \<and> promises (history idleSession
      [Call CallerA True, Call CallerB False,
       TriggerDone CallerA (Some ''Node is detached from document'')]) ! 1 = Pending
   \<and> calls (history idleSession
      [Call CallerA True, Call CallerB False,
       TriggerDone CallerA (Some ''Node is detached from document'')]) CallerB
     = Follower 2 1
   \<and> observedBy (history idleSession
      [Call CallerA True, Call CallerB False,
       TriggerDone CallerA (Some ''Node is detached from document''),
       Begin ''thread.md'', Progress Completed None, Wake CallerB]) CallerA
     = Some (Thrown (TriggerError ''Node is detached from document''))
   \<and> observedBy (history idleSession
      [Call CallerA True, Call CallerB False,
       TriggerDone CallerA (Some ''Node is detached from document''),
       Begin ''thread.md'', Progress Completed None, Wake CallerB]) CallerB
     = Some (Resolved (Some ''downloads/thread.md''))
   \<and> observedBy (history idleSession
      [Call CallerA True, Call CallerB False, TriggerDone CallerA None,
       Begin ''thread.md'', Progress Canceled (Some ''429''),
       Wake CallerA, Wake CallerB]) CallerA
     = Some (Thrown (DownloadError ''Download failed: 429'' (Some 429)))
   \<and> observedBy (history idleSession
      [Call CallerA True, Call CallerB False, TriggerDone CallerA None,
       Begin ''thread.md'', Progress Canceled (Some ''429''),
       Wake CallerA, Wake CallerB]) CallerB
     = Some (Thrown (DownloadError ''Download failed: 429'' (Some 429)))"
proof -
  let ?pre = "[Call CallerA True, Call CallerB False,
               TriggerDone CallerA (Some ''Node is detached from document''),
               Call CallerC False]"
  have "finished CallerA 0 (Thrown (TriggerError ''Node is detached from document''))
          (history idleSession ?pre)"
    by (simp add: finished_def session_defs)
  then have "finished CallerA 0 (Thrown (TriggerError ''Node is detached from document''))
          (history idleSession (?pre @ es))"
    unfolding history_append by (rule finished_history)
  then have 1: "observedBy (history idleSession (?pre @ es)) CallerA
     = Some (Thrown (TriggerError ''Node is detached from document''))"
    by (rule finished_observes)
  have "stranded 1 2 (history idleSession ?pre)"
    by (simp add: stranded_def session_defs)
  then have "stranded 1 2 (history idleSession (?pre @ es))"
    unfolding history_append by (rule stranded_history)
  then have 2: "observedBy (history idleSession (?pre @ es)) CallerB = None"
    by (rule stranded_observes_nothing)
  have 3: "observedBy (history idleSession
      [Call CallerA True, Call CallerB False,
       TriggerDone CallerA (Some ''Node is detached from document''),
       Call CallerC False,
       Begin ''thread.md'', Progress Completed None, Wake CallerC, Wake CallerB]) CallerC
     = Some (Resolved (Some ''downloads/thread.md''))"
    by (simp add: session_defs)
  have 4: "downloadPromise (mgr (history idleSession
      [Call CallerA True, Call CallerB False,
       TriggerDone CallerA (Some ''Node is detached from document'')])) = None
   \<and> downloadResolve (mgr (history idleSession
      [Call CallerA True, Call CallerB False,
       TriggerDone CallerA (Some ''Node is detached from document'')])) = Some 1
   \<and> downloadReject (mgr (history idleSession
      [Call CallerA True, Call CallerB False,
       TriggerDone CallerA (Some ''Node is detached from document'')])) = Some 1
   \<and> promises (history idleSession
      [Call CallerA True, Call CallerB False,
       TriggerDone CallerA (Some ''Node is detached from document'')]) ! 1 = Pending
   \<and> calls (history idleSession
      [Call CallerA True, Call CallerB False,
       TriggerDone CallerA (Some ''Node is detached from document'')]) CallerB
     = Follower 2 1"
    by (simp add: session_defs)
  have 5: "observedBy (history idleSession
      [Call CallerA True, Call CallerB False,
       TriggerDone CallerA (Some ''Node is detached from document''),
       Begin ''thread.md'', Progress Completed None, Wake CallerB]) CallerA
     = Some (Thrown (TriggerError ''Node is detached from document''))
   \<and> observedBy (history idleSession
      [Call CallerA True, Call CallerB False,
       TriggerDone CallerA (Some ''Node is detached from document''),
       Begin ''thread.md'', Progress Completed None, Wake CallerB]) CallerB
     = Some (Resolved (Some ''downloads/thread.md''))"
    by (simp add: session_defs)
  have 6: "observedBy (history idleSession
      [Call CallerA True, Call CallerB False, TriggerDone CallerA None,
       Begin ''thread.md'', Progress Canceled (Some ''429''),
       Wake CallerA, Wake CallerB]) CallerA
     = Some (Thrown (DownloadError ''Download failed: 429'' (Some 429)))
   \<and> observedBy (history idleSession
      [Call CallerA True, Call CallerB False, TriggerDone CallerA None,
       Begin ''thread.md'', Progress Canceled (Some ''429''),
       Wake CallerA, Wake CallerB]) CallerB
     = Some (Thrown (DownloadError ''Download failed: 429'' (Some 429)))"
    by (simp add: session_defs)
  from 1 2 3 4 5 6 show ?thesis by simp
qed

section \<open>Properties of the orchestrator\<close>

text \<open>What \<open>logError\<close> does when it returns: it writes the log file and nothing else.\<close>

lemma logError_only_log:
  assumes "logError parse stringify now d u message = Some d1"
  shows "files d1 DONE_FILE = files d DONE_FILE \<and> refused d1 = refused d"
proof -
  from assms obtain c where "writeFile d ERROR_FILE c = Some d1"
    by (auto simp: logError_def Let_def split: option.splits json.splits)
  then show ?thesis
    by (auto simp: writeFile_def DONE_FILE_def ERROR_FILE_def split: if_splits)
qed




text \<open>The retry loop touches the file system only through \<open>logError\<close>, and at most once.\<close>

lemma retryLoop_disk:
  "snd (retryLoop parse stringify now outcome u attempts d) = d
   \<or> (\<exists>message. logError parse stringify now d u message
                  = Some (snd (retryLoop parse stringify now outcome u attempts d)))"
proof (induction k \<equiv> "MAX_ATTEMPTS - attempts" arbitrary: attempts)
  case 0
  then have "\<not> attempts < MAX_ATTEMPTS" by simp
  then show ?case by (subst (1 2) retryLoop.simps) simp
next
  case (Suc k)
  then have lt: "attempts < MAX_ATTEMPTS" and k: "k = MAX_ATTEMPTS - (attempts + 1)" by auto
  note IH = Suc.hyps(1)[OF k]
  show ?case
  proof (cases "outcome (attempts + 1)")
    case (Loaded td)
    with lt show ?thesis by (subst (1 2) retryLoop.simps) simp
  next
    case (Failed message p)
    from lt Failed IH show ?thesis
      by (subst (1 2) retryLoop.simps)
         (cases p; auto simp del: retryLoop.simps split: option.splits)
  qed
qed

lemma retryLoop_keeps_store:
  "files (snd (retryLoop parse stringify now outcome u attempts d)) DONE_FILE
     = files d DONE_FILE
   \<and> refused (snd (retryLoop parse stringify now outcome u attempts d)) = refused d"
  using retryLoop_disk[of parse stringify now outcome u attempts d] logError_only_log
  by metis

lemma updateStatus_only_status:
  assumes "updateStatus stringify d shown = Some d0"
  shows "files d0 DONE_FILE = files d DONE_FILE \<and> files d0 ERROR_FILE = files d ERROR_FILE
         \<and> refused d0 = refused d"
  using assms
  by (auto simp: updateStatus_def writeFile_def STATUS_FILE_def DONE_FILE_def ERROR_FILE_def
      split: if_splits)


text \<open>
  A record whose fetch does not deliver thread data leaves the state store, in memory and
  in its file, as it was, whether the run goes on or is aborted.
\<close>

lemma failed_fetch_keeps_store:
  assumes "\<forall>d0 td. fst (retryLoop parse stringify now outcome u 0 d0) \<noteq> Got td"
  shows "\<exists>st'. (processRecord parse stringify now outcome exportFiles publish shown st u
                  = Continue st'
                \<or> (\<exists>m. processRecord parse stringify now outcome exportFiles publish shown
                          st u
                         = Abort m st'))
             \<and> doneFile st' = doneFile st
             \<and> files (disk st') DONE_FILE = files (disk st) DONE_FILE"
proof (cases "updateStatus stringify (disk st) shown")
  case None
  then show ?thesis by (auto simp: processRecord_def)
next
  case (Some d0)
  from updateStatus_only_status[OF Some]
  have s: "files d0 DONE_FILE = files (disk st) DONE_FILE" by simp
  show ?thesis
  proof (cases "retryLoop parse stringify now outcome u 0 d0")
    case (Pair f d1)
    from retryLoop_keeps_store[of parse stringify now outcome u 0 d0] Pair s
    have "files d1 DONE_FILE = files (disk st) DONE_FILE" by simp
    moreover from assms Pair have "\<And>td. f \<noteq> Got td" by (metis fst_conv)
    ultimately show ?thesis using Pair Some
      by (cases f) (auto simp: processRecord_def)
  qed
qed




lemma timeout_message_kind:
  "includes_str ''Timeout waiting for thread data API response for abc-123''
     ''Timeout waiting for thread data''"
  "\<not> includes_str ''Timeout waiting for thread data API response for abc-123''
     ''Perplexity API Error''"
  by (simp_all add: includes_str_def)

text \<open>
  And so does an exception of \<open>logError\<close>: with a log file that cannot be written, the
  third failed attempt ends the run. An exception of \<open>updateStatus\<close> ends it before the
  fetch.
\<close>

lemma unwritable_log_aborts:
  "processRecord id Some ''2026-01-01T00:00:02.000Z''
     (timeoutOnly ''https://www.perplexity.ai/search/abc-123'') Map.empty Map.empty JNull
     (emptyRun\<lparr>disk := \<lparr>files = Map.empty, refused = {''errors.json''}\<rparr>\<rparr>)
     ''https://www.perplexity.ai/search/abc-123''
   = Abort ''logError failed''
       (emptyRun\<lparr>disk := \<lparr>files = [''status.json'' \<mapsto> Some JNull],
                           refused = {''errors.json''}\<rparr>\<rparr>)"
  by (simp add: processRecord_def timeoutOnly_def emptyRun_def MAX_ATTEMPTS_def
      timeout_message_kind logError_def readFile_def writeFile_def ERROR_FILE_def
      updateStatus_def STATUS_FILE_def)

lemma unwritable_status_aborts:
  "STATUS_FILE \<in> refused (disk st)
   \<Longrightarrow> processRecord parse stringify now outcome exportFiles publish shown st u
       = Abort ''updateStatus failed'' st"
  by (simp add: processRecord_def updateStatus_def writeFile_def)




text \<open>
  C7 at the failing input. All three attempts for a record fail with the timeout error.
  When the login surface never shows, the third failure is written to the error log and
  the record is skipped. When the login surface shows at the third attempt, the loop
  re-authenticates and ends because the attempts are used up: the record is skipped, the
  state store is untouched, and nothing is written to the error log (the only file written
  is the status file, at the start of the iteration).
\<close>

theorem silent_skip_after_relogin:
  "processRecord id Some ''2026-01-01T00:00:02.000Z''
     (timeoutOnly ''https://www.perplexity.ai/search/abc-123'') Map.empty Map.empty
     (savingStatus ''https://www.perplexity.ai/search/abc-123'') emptyRun
     ''https://www.perplexity.ai/search/abc-123''
   = Continue (emptyRun\<lparr>disk :=
       \<lparr>files = [''status.json'' \<mapsto>
                   Some (savingStatus ''https://www.perplexity.ai/search/abc-123''),
                 ''errors.json'' \<mapsto> Some (JArr
          [JObj [(''url'', JStr ''https://www.perplexity.ai/search/abc-123''),
                 (''error'', JStr ''Timeout waiting for API response''),
                 (''timestamp'', JStr ''2026-01-01T00:00:02.000Z'')]])],
        refused = {}\<rparr>\<rparr>)
   \<and> processRecord id Some ''2026-01-01T00:00:02.000Z''
       (loginOnLastAttempt ''https://www.perplexity.ai/search/abc-123'') Map.empty Map.empty
       (savingStatus ''https://www.perplexity.ai/search/abc-123'') emptyRun
       ''https://www.perplexity.ai/search/abc-123''
     = Continue (emptyRun\<lparr>disk :=
         \<lparr>files = [''status.json'' \<mapsto>
                     Some (savingStatus ''https://www.perplexity.ai/search/abc-123'')],
          refused = {}\<rparr>\<rparr>)"
  by (simp add: processRecord_def timeoutOnly_def loginOnLastAttempt_def emptyRun_def
      MAX_ATTEMPTS_def timeout_message_kind logError_def readFile_def writeFile_def
      ERROR_FILE_def updateStatus_def STATUS_FILE_def)

end
